theory Spec2Isabelle
  imports Main "HOL-Library.Sublist"
begin

section \<open>Python values used by \<^verbatim>\<open>equivcheck.py\<close>\<close>

text \<open>
  The checker reads the graph text that \<^verbatim>\<open>re2c -D\<close> prints. A Python \<^verbatim>\<open>str\<close> is modelled
  as a \<open>string\<close>, so the model covers the texts whose code points are below 256 (the
  generator's output is ASCII). A Python \<^verbatim>\<open>int\<close> is an \<open>int\<close>. Every exception the code can
  raise is a value of \<open>error\<close>, and a function that can raise returns \<open>error + 'a\<close>.
\<close>

datatype error =
    ValueError          \<comment> \<open>\<^verbatim>\<open>int(s, 16)\<close>, \<^verbatim>\<open>chr\<close>, or unpacking \<^verbatim>\<open>a, b = ...\<close>\<close>
  | TypeError           \<comment> \<open>\<^verbatim>\<open>ord\<close> of a string that is not one character\<close>
  | KeyError            \<comment> \<open>a dictionary read at a missing key\<close>
  | MultipleStartError  \<comment> \<open>\<^verbatim>\<open>raise Exception("parsed DFA had multiple potential start symbols!")\<close>\<close>
  | AssertionError      \<comment> \<open>a failed \<^verbatim>\<open>assert\<close>\<close>

subsection \<open>String methods\<close>

text \<open>\<^verbatim>\<open>s.strip(cs)\<close>: drop the characters of \<open>cs\<close> from both ends.\<close>

definition strip_chars :: "string \<Rightarrow> string \<Rightarrow> string" where
  "strip_chars cs s =
     rev (dropWhile (\<lambda>c. c \<in> set cs) (rev (dropWhile (\<lambda>c. c \<in> set cs) s)))"

text \<open>
  \<^verbatim>\<open>s.split(sep)\<close> for a non-empty separator: the pieces between the occurrences of
  \<open>sep\<close>, found from the left without overlap. \<open>cur\<close> is the piece being read.
\<close>

fun split_from :: "string \<Rightarrow> string \<Rightarrow> string \<Rightarrow> string list" where
  "split_from sep cur [] = [cur]"
| "split_from sep cur (c # s) =
     (if sep \<noteq> [] \<and> prefix sep (c # s)
      then cur # split_from sep [] (drop (length sep) (c # s))
      else split_from sep (cur @ [c]) s)"

definition split_sep :: "string \<Rightarrow> string \<Rightarrow> string list" where
  "split_sep sep s = split_from sep [] s"

text \<open>
  The characters Python counts as whitespace, among the code points below 256: tab to
  carriage return, the four separators 28 to 31, the space, NEL and the no-break space.
\<close>

definition is_space :: "char \<Rightarrow> bool" where
  "is_space c = ((of_char c :: int) \<in> {9, 10, 11, 12, 13, 28, 29, 30, 31, 32, 133, 160})"

text \<open>\<^verbatim>\<open>s.split()\<close>: the maximal runs of characters that are not whitespace.\<close>

fun split_ws_from :: "string \<Rightarrow> string \<Rightarrow> string list" where
  "split_ws_from cur [] = (if cur = [] then [] else [cur])"
| "split_ws_from cur (c # s) =
     (if is_space c
      then (if cur = [] then split_ws_from [] s else cur # split_ws_from [] s)
      else split_ws_from (cur @ [c]) s)"

definition split_ws :: "string \<Rightarrow> string list" where
  "split_ws s = split_ws_from [] s"

subsection \<open>\<^verbatim>\<open>ord\<close>, \<^verbatim>\<open>chr\<close>, \<^verbatim>\<open>int(s, 16)\<close> and \<^verbatim>\<open>str\<close>\<close>

definition ord :: "string \<Rightarrow> error + int" where
  "ord s = (case s of [c] \<Rightarrow> Inr (of_char c) | _ \<Rightarrow> Inl TypeError)"

text \<open>
  A one-character string made by \<^verbatim>\<open>chr\<close> is represented by its code point, so that the
  alphabet of an automaton can hold every character \<^verbatim>\<open>chr\<close> can make. \<^verbatim>\<open>chr(x)\<close> raises
  outside \<^verbatim>\<open>range(0x110000)\<close>.
\<close>

type_synonym symbol = int

definition chr :: "int \<Rightarrow> error + symbol" where
  "chr x = (if 0 \<le> x \<and> x < 0x110000 then Inr x else Inl ValueError)"

definition hexval :: "char \<Rightarrow> int option" where
  "hexval c =
     (let n = (of_char c :: int) in
      if 48 \<le> n \<and> n \<le> 57 then Some (n - 48)
      else if 97 \<le> n \<and> n \<le> 102 then Some (n - 87)
      else if 65 \<le> n \<and> n \<le> 70 then Some (n - 55)
      else None)"

definition is_hexdigit :: "char \<Rightarrow> bool" where
  "is_hexdigit c = (hexval c \<noteq> None)"

text \<open>
  \<^verbatim>\<open>int(s, 16)\<close>: whitespace around the literal is skipped; a sign may come first; the
  prefix \<^verbatim>\<open>0x\<close> or \<^verbatim>\<open>0X\<close> is optional and may be followed by one underscore; then
  come hexadecimal digits, where single underscores may stand between digits. Anything
  else raises \<^verbatim>\<open>ValueError\<close>. The whitespace \<^verbatim>\<open>int\<close> skips is narrower than that of
  \<^verbatim>\<open>split\<close>: the four separators 28 to 31 are not part of it.
\<close>

definition is_int_space :: "char \<Rightarrow> bool" where
  "is_int_space c = ((of_char c :: int) \<in> {9, 10, 11, 12, 13, 32, 133, 160})"

fun no_double_underscore :: "string \<Rightarrow> bool" where
  "no_double_underscore (a # b # r) =
     (\<not> (a = CHR ''_'' \<and> b = CHR ''_'') \<and> no_double_underscore (b # r))"
| "no_double_underscore _ = True"

definition digits_ok :: "string \<Rightarrow> bool" where
  "digits_ok ds =
     (ds \<noteq> [] \<and> hd ds \<noteq> CHR ''_'' \<and> last ds \<noteq> CHR ''_'' \<and> no_double_underscore ds)"

definition digits_value :: "string \<Rightarrow> int" where
  "digits_value ds =
     foldl (\<lambda>acc c. case hexval c of Some d \<Rightarrow> 16 * acc + d | None \<Rightarrow> acc) 0 ds"

definition is_digit_or_underscore :: "char \<Rightarrow> bool" where
  "is_digit_or_underscore c = (is_hexdigit c \<or> c = CHR ''_'')"

definition int16_digits :: "string \<Rightarrow> error + int" where
  "int16_digits v =
     (if digits_ok (takeWhile is_digit_or_underscore v)
         \<and> list_all is_int_space (dropWhile is_digit_or_underscore v)
      then Inr (digits_value (takeWhile is_digit_or_underscore v))
      else Inl ValueError)"

definition int16_prefixed :: "string \<Rightarrow> error + int" where
  "int16_prefixed u =
     (if prefix ''0x'' u \<or> prefix ''0X'' u
      then (if prefix ''_'' (drop 2 u) then int16_digits (drop 3 u) else int16_digits (drop 2 u))
      else int16_digits u)"

definition int16_signed :: "string \<Rightarrow> error + int" where
  "int16_signed t =
     (if prefix ''-'' t then map_sum id uminus (int16_prefixed (tl t))
      else if prefix ''+'' t then int16_prefixed (tl t)
      else int16_prefixed t)"

definition int16 :: "string \<Rightarrow> error + int" where
  "int16 s = int16_signed (dropWhile is_int_space s)"

text \<open>\<^verbatim>\<open>str(x)\<close> of an integer: its decimal digits, after a minus sign when negative.\<close>

definition digit_char :: "nat \<Rightarrow> char" where
  "digit_char n = ''0123456789'' ! n"

fun str_nat :: "nat \<Rightarrow> string" where
  "str_nat n = (if n < 10 then [digit_char n] else str_nat (n div 10) @ [digit_char (n mod 10)])"

declare str_nat.simps [simp del]

definition str :: "int \<Rightarrow> string" where
  "str x = (if x < 0 then CHR ''-'' # str_nat (nat (- x)) else str_nat (nat x))"

section \<open>The data model\<close>

record Transition =
  src :: int
  dst :: int
  chars :: "int set"

record ParsedDFA =
  transitions :: "Transition list"
  finalnodes :: "(int \<times> string) list"

section \<open>The Character Range Decoder: \<^verbatim>\<open>parse_char_ranges\<close>\<close>

text \<open>The local function \<^verbatim>\<open>p\<close>: one endpoint, a hexadecimal literal or one character.\<close>

definition p :: "string \<Rightarrow> error + int" where
  "p s = (if prefix ''0x'' s then int16 s else ord s)"

text \<open>
  The loop over the parts of the range string. \<^verbatim>\<open>a, b = part.split("-")\<close> raises unless
  the split has two pieces; \<^verbatim>\<open>sorted([p(a), p(b)])\<close> evaluates \<open>p a\<close> first;
  \<^verbatim>\<open>range(start, end + 1)\<close> is the interval from \<open>start\<close> to \<open>end\<close>.
\<close>

fun parse_parts :: "string list \<Rightarrow> int set \<Rightarrow> error + int set" where
  "parse_parts [] cs = Inr cs"
| "parse_parts (part # rest) cs =
     (if CHR ''-'' \<in> set part
      then (case split_sep ''-'' part of
              [a, b] \<Rightarrow>
                (case p a of
                   Inl e \<Rightarrow> Inl e
                 | Inr x \<Rightarrow>
                     (case p b of
                        Inl e \<Rightarrow> Inl e
                      | Inr y \<Rightarrow> parse_parts rest (cs \<union> {min x y .. max x y})))
            | _ \<Rightarrow> Inl ValueError)
      else (case p part of
              Inl e \<Rightarrow> Inl e
            | Inr x \<Rightarrow> parse_parts rest (cs \<union> {x})))"

definition parse_char_ranges :: "string \<Rightarrow> error + int set" where
  "parse_char_ranges range_str =
     parse_parts (split_sep ''][''  (strip_chars ''[]'' range_str)) {}"

section \<open>The Graph Parser: the label of an edge line\<close>

text \<open>
  Lines 87 to 101 of \<^verbatim>\<open>parse_re2c_graph\<close>: what is recorded for a line the edge pattern
  matched, given the three groups of the match. The loop over the tokens of the label
  skips a token that starts with the literal the code tests for, and decodes a token
  that holds an opening bracket.
\<close>

fun label_chars :: "string list \<Rightarrow> int set \<Rightarrow> error + int set" where
  "label_chars [] cs = Inr cs"
| "label_chars (range_str # rest) cs =
     (if prefix ''yyacept='' range_str then label_chars rest cs
      else if CHR ''['' \<in> set range_str
      then (case parse_char_ranges range_str of
              Inl e \<Rightarrow> Inl e
            | Inr ds \<Rightarrow> label_chars rest (cs \<union> ds))
      else label_chars rest cs)"

definition edge_transition :: "int \<Rightarrow> int \<Rightarrow> string option \<Rightarrow> error + Transition" where
  "edge_transition s d label =
     (case label of
        None \<Rightarrow> Inr \<lparr>src = s, dst = d, chars = {}\<rparr>
      | Some l \<Rightarrow>
          if l = [] then Inr \<lparr>src = s, dst = d, chars = {}\<rparr>
          else (case label_chars (split_ws l) {} of
                  Inl e \<Rightarrow> Inl e
                | Inr cs \<Rightarrow> Inr \<lparr>src = s, dst = d, chars = cs\<rparr>))"

section \<open>The Automaton Builder: \<^verbatim>\<open>parsed_dfa_to_automaton\<close>\<close>

text \<open>
  Modelled from the spec: the class \<^verbatim>\<open>DFA\<close> comes from the automaton library the
  checker imports, which is not part of the repository. The Automaton of the data model
  is the record of the five attributes the builder passes to the constructor: the state
  set, the input symbols, the transition function (a dictionary of dictionaries), the
  start state and the accepting states.
\<close>

type_synonym delta = "string \<rightharpoonup> (symbol \<rightharpoonup> string)"

record DFA =
  states :: "string set"
  input_symbols :: "symbol set"
  transitions :: delta
  initial_state :: string
  final_states :: "string set"

definition mk_state :: "int \<Rightarrow> string" where
  "mk_state x = str x"

text \<open>\<^verbatim>\<open>chr(x)\<close> for every \<open>x\<close> of a character set: it raises when one of them does.\<close>

definition chr_all :: "int set \<Rightarrow> error + symbol set" where
  "chr_all S = (if \<exists>x \<in> S. isl (chr x) then Inl ValueError else Inr ((projr \<circ> chr) ` S))"

text \<open>
  The first loop over the transitions (lines 142 to 147) collects the state set, the
  input symbols and the destinations (\<^verbatim>\<open>nonstarters\<close>).
\<close>

fun scan_transitions ::
  "Transition list \<Rightarrow> string set \<times> symbol set \<times> string set
     \<Rightarrow> error + string set \<times> symbol set \<times> string set" where
  "scan_transitions [] acc = Inr acc"
| "scan_transitions (t # ts) (sts, syms, nonstarters) =
     (case chr_all (chars t) of
        Inl e \<Rightarrow> Inl e
      | Inr cs \<Rightarrow>
          scan_transitions ts
            (insert (mk_state (dst t)) (insert (mk_state (src t)) sts),
             syms \<union> cs,
             insert (mk_state (dst t)) nonstarters))"

text \<open>
  \<^verbatim>\<open>for sym in syms: row[sym] = d\<close>: the keys are distinct, so the order in which the
  set is walked does not matter.
\<close>

definition assign_all :: "(symbol \<rightharpoonup> string) \<Rightarrow> symbol set \<Rightarrow> string \<Rightarrow> (symbol \<rightharpoonup> string)" where
  "assign_all row syms d = (\<lambda>c. if c \<in> syms then Some d else row c)"

text \<open>
  Lines 153 to 155: a self-loop on every input symbol at every final state. The read
  \<^verbatim>\<open>transitions[fs]\<close> is inside the inner loop: it raises \<^verbatim>\<open>KeyError\<close> for a final state
  that is not a key, unless there is no input symbol at all.
\<close>

definition init_self_loops :: "delta \<Rightarrow> string set \<Rightarrow> symbol set \<Rightarrow> error + delta" where
  "init_self_loops tr finals syms =
     (if syms = {} then Inr tr
      else if \<exists>fs \<in> finals. tr fs = None then Inl KeyError
      else Inr (\<lambda>s. if s \<in> finals
                     then map_option (\<lambda>row. assign_all row syms s) (tr s)
                     else tr s))"

text \<open>
  The body of the second loop (lines 158 to 165) for one transition: an empty character
  set assigns the destination at every input symbol, any other set at its own symbols.
\<close>

definition set_edges :: "symbol set \<Rightarrow> delta \<Rightarrow> Transition \<Rightarrow> error + delta" where
  "set_edges syms tr t =
     (if chars t = {}
      then (if syms = {} then Inr tr
            else (case tr (mk_state (src t)) of
                    None \<Rightarrow> Inl KeyError
                  | Some row \<Rightarrow>
                      Inr (tr(mk_state (src t) \<mapsto> assign_all row syms (mk_state (dst t))))))
      else (case tr (mk_state (src t)) of
              None \<Rightarrow> Inl KeyError
            | Some row \<Rightarrow>
                (case chr_all (chars t) of
                   Inl e \<Rightarrow> Inl e
                 | Inr cs \<Rightarrow>
                     Inr (tr(mk_state (src t) \<mapsto> assign_all row cs (mk_state (dst t)))))))"

fun apply_transitions :: "symbol set \<Rightarrow> Transition list \<Rightarrow> delta \<Rightarrow> error + delta" where
  "apply_transitions syms [] tr = Inr tr"
| "apply_transitions syms (t # ts) tr =
     (case set_edges syms tr t of
        Inl e \<Rightarrow> Inl e
      | Inr tr' \<Rightarrow> apply_transitions syms ts tr')"

text \<open>
  Lines 167 to 173: the states that are no destination. More than one raises the
  exception, none fails the assertion, and the only one is the initial state.
\<close>

definition pick_start :: "string set \<Rightarrow> error + string" where
  "pick_start starters =
     (if card starters > 1 then Inl MultipleStartError
      else if card starters \<noteq> 1 then Inl AssertionError
      else Inr (the_elem starters))"

definition parsed_dfa_to_automaton :: "ParsedDFA \<Rightarrow> error + DFA" where
  "parsed_dfa_to_automaton pdfa =
     (let finals = (mk_state \<circ> fst) ` set (finalnodes pdfa) in
      case scan_transitions (ParsedDFA.transitions pdfa) ({}, {}, {}) of
        Inl e \<Rightarrow> Inl e
      | Inr (sts, syms, nonstarters) \<Rightarrow>
          (case init_self_loops (\<lambda>s. if s \<in> sts then Some Map.empty else None) finals syms of
             Inl e \<Rightarrow> Inl e
           | Inr tr1 \<Rightarrow>
               (case apply_transitions syms (ParsedDFA.transitions pdfa) tr1 of
                  Inl e \<Rightarrow> Inl e
                | Inr tr2 \<Rightarrow>
                    (case pick_start (sts - nonstarters) of
                       Inl e \<Rightarrow> Inl e
                     | Inr q0 \<Rightarrow>
                         Inr \<lparr>states = sts, input_symbols = syms, transitions = tr2,
                              initial_state = q0, final_states = finals\<rparr>))))"

text \<open>The successor of a state on a symbol, when the dictionaries hold one.\<close>

definition next_state :: "delta \<Rightarrow> string \<Rightarrow> symbol \<Rightarrow> string option" where
  "next_state tr s c = (case tr s of None \<Rightarrow> None | Some row \<Rightarrow> row c)"

section \<open>The Equivalence Engine: the comparison in \<^verbatim>\<open>main\<close>\<close>

text \<open>
  Lines 217 to 235 compare two automata with the operations of the automaton library:
  \<^verbatim>\<open>difference\<close>, \<^verbatim>\<open>union\<close>, \<^verbatim>\<open>isempty\<close>, the equality of automata and \<^verbatim>\<open>successor\<close>.
  The library is not part of the repository, so its operations are parameters of the
  model: a record of functions over the library's automata \<open>'d\<close>, with the constructor
  \<^verbatim>\<open>DFA(...)\<close> that takes what the builder passes. A word is a list of input symbols.
\<close>

record 'd automaton_library =
  construct :: "DFA \<Rightarrow> 'd"
  difference :: "'d \<Rightarrow> 'd \<Rightarrow> 'd"
  union_of :: "'d \<Rightarrow> 'd \<Rightarrow> 'd"
  isempty :: "'d \<Rightarrow> bool"
  equal_to :: "'d \<Rightarrow> 'd \<Rightarrow> bool"
  successor :: "'d \<Rightarrow> symbol list \<Rightarrow> symbol list option"

text \<open>
  What the comparison prints: the line about the first automaton (printed for the
  difference \<^verbatim>\<open>z.difference(a)\<close>), the line about the second (for \<^verbatim>\<open>a.difference(z)\<close>),
  each with the value \<^verbatim>\<open>successor("", strict=True)\<close> returned, and the verdict.
\<close>

datatype report =
    Only_first "symbol list option"
  | Only_second "symbol list option"
  | Equivalent bool

text \<open>The two computations of the verdict, \<^verbatim>\<open>equiv1\<close> and \<^verbatim>\<open>equiv2\<close>.\<close>

definition equiv1 :: "'d automaton_library \<Rightarrow> 'd \<Rightarrow> 'd \<Rightarrow> bool" where
  "equiv1 lib a z =
     (equal_to lib (union_of lib a z) a \<and> equal_to lib (union_of lib z a) z)"

definition equiv2 :: "'d automaton_library \<Rightarrow> 'd \<Rightarrow> 'd \<Rightarrow> bool" where
  "equiv2 lib a z =
     (isempty lib (difference lib a z) \<and> isempty lib (difference lib z a))"

text \<open>
  The comparison returns the lines printed so far and either the verdict or the
  failure of \<^verbatim>\<open>assert equiv1 == equiv2\<close>, after which nothing more is printed.
\<close>

definition compare_automata ::
  "'d automaton_library \<Rightarrow> 'd \<Rightarrow> 'd \<Rightarrow> report list \<times> (error + bool)" where
  "compare_automata lib a z =
     (let zad = difference lib z a;
          out1 = (if \<not> isempty lib zad then [Only_first (successor lib zad [])] else []);
          adz = difference lib a z;
          out2 = (if \<not> isempty lib adz then [Only_second (successor lib adz [])] else [])
      in if equiv1 lib a z = equiv2 lib a z
         then (out1 @ out2 @ [Equivalent (equiv1 lib a z)], Inr (equiv1 lib a z))
         else (out1 @ out2, Inl AssertionError))"

text \<open>Two parsed graphs are built and compared; a failure of either build ends the run.\<close>

definition compare_graphs ::
  "'d automaton_library \<Rightarrow> ParsedDFA \<Rightarrow> ParsedDFA \<Rightarrow> report list \<times> (error + bool)" where
  "compare_graphs lib g1 g2 =
     (case parsed_dfa_to_automaton g1 of
        Inl e \<Rightarrow> ([], Inl e)
      | Inr a \<Rightarrow>
          (case parsed_dfa_to_automaton g2 of
             Inl e \<Rightarrow> ([], Inl e)
           | Inr z \<Rightarrow> compare_automata lib (construct lib a) (construct lib z)))"

section \<open>The automaton algebra, after the specification\<close>

text \<open>
  Modelled from the spec: the operations of the automaton library (difference, union,
  emptiness, equality and the search for the smallest accepted string), whose code is
  not in the repository. The specification describes them at the level of languages:
  a product construction for difference and union, emptiness as the absence of an
  accepted word, and the witness as the shortest non-empty accepted string, the
  lexicographically first among those of equal length. A machine is a built automaton
  or the product of two machines; its configuration is a state of a built automaton
  (or none, once the automaton has no transition to take) or a pair of configurations.
\<close>

datatype machine = Built DFA | Difference machine machine | Union_of machine machine

datatype config = At "string option" | Both config config

text \<open>Modelled from the spec: the start pair of a product and the start state of a leaf.\<close>

fun start :: "machine \<Rightarrow> config" where
  "start (Built A) = At (Some (initial_state A))"
| "start (Difference x y) = Both (start x) (start y)"
| "start (Union_of x y) = Both (start x) (start y)"

text \<open>
  Modelled from the spec: one step of a machine. A built automaton follows its
  transition function on the symbols of its alphabet and has no state left otherwise;
  a product steps both components.
\<close>

fun step :: "machine \<Rightarrow> config \<Rightarrow> symbol \<Rightarrow> config" where
  "step (Built A) (At q) c =
     At (case q of
           None \<Rightarrow> None
         | Some s \<Rightarrow> if c \<in> input_symbols A then next_state (DFA.transitions A) s c else None)"
| "step (Difference x y) (Both k l) c = Both (step x k c) (step y l c)"
| "step (Union_of x y) (Both k l) c = Both (step x k c) (step y l c)"
| "step m k c = k"

text \<open>
  Modelled from the spec: the accepting configurations. A difference accepts where its
  first component accepts and its second does not (the accepting mismatch), a union
  where one of them accepts.
\<close>

fun final :: "machine \<Rightarrow> config \<Rightarrow> bool" where
  "final (Built A) (At q) = (case q of None \<Rightarrow> False | Some s \<Rightarrow> s \<in> final_states A)"
| "final (Difference x y) (Both k l) = (final x k \<and> \<not> final y l)"
| "final (Union_of x y) (Both k l) = (final x k \<or> final y l)"
| "final m k = False"

definition accepts :: "machine \<Rightarrow> symbol list \<Rightarrow> bool" where
  "accepts m w = final m (foldl (step m) (start m) w)"

text \<open>
  Modelled from the spec: the alphabet of a product is the union of the alphabets, and
  a product of machines has at most the product of their numbers of configurations.
\<close>

fun symbols :: "machine \<Rightarrow> symbol set" where
  "symbols (Built A) = input_symbols A"
| "symbols (Difference x y) = symbols x \<union> symbols y"
| "symbols (Union_of x y) = symbols x \<union> symbols y"

fun state_count :: "machine \<Rightarrow> nat" where
  "state_count (Built A) = Suc (card (states A))"
| "state_count (Difference x y) = state_count x * state_count y"
| "state_count (Union_of x y) = state_count x * state_count y"

text \<open>
  Modelled from the spec: the order of the witness search. Shorter words come first,
  and words of equal length in lexicographic order of their symbols.
\<close>

fun lex_less :: "symbol list \<Rightarrow> symbol list \<Rightarrow> bool" where
  "lex_less [] [] = False"
| "lex_less [] (b # v) = True"
| "lex_less (a # u) [] = False"
| "lex_less (a # u) (b # v) = (a < b \<or> (a = b \<and> lex_less u v))"

definition shortlex_less :: "symbol list \<Rightarrow> symbol list \<Rightarrow> bool" where
  "shortlex_less u v = (length u < length v \<or> (length u = length v \<and> lex_less u v))"

text \<open>
  Modelled from the spec: the candidates of the search, level by level as a
  breadth-first search meets them: all words of length one, then of length two, and so
  on up to a bound, each level in lexicographic order.
\<close>

fun words_of_length :: "symbol list \<Rightarrow> nat \<Rightarrow> symbol list list" where
  "words_of_length syms 0 = [[]]"
| "words_of_length syms (Suc n) = concat (map (\<lambda>c. map ((#) c) (words_of_length syms n)) syms)"

definition candidates :: "symbol list \<Rightarrow> nat \<Rightarrow> symbol list list" where
  "candidates syms n = concat (map (words_of_length syms) [1..<Suc n])"

text \<open>
  Modelled from the spec: the first accepted word after \<open>w\<close> in the order of the search;
  with the empty word for \<open>w\<close> this is the smallest non-empty accepted string. Words
  longer than the number of configurations need not be tried (a run that long repeats
  a configuration). A machine is empty when it accepts neither the empty word nor any
  candidate; two machines are equal when both differences are empty.
\<close>

definition successor_in :: "machine \<Rightarrow> symbol list \<Rightarrow> symbol list option" where
  "successor_in m w =
     find (\<lambda>v. shortlex_less w v \<and> accepts m v)
       (candidates (sorted_list_of_set (symbols m)) (length w + state_count m))"

definition is_empty :: "machine \<Rightarrow> bool" where
  "is_empty m = (\<not> accepts m [] \<and> successor_in m [] = None)"

definition spec_library :: "machine automaton_library" where
  "spec_library =
     \<lparr>construct = Built,
      difference = Difference,
      union_of = Union_of,
      isempty = is_empty,
      equal_to = (\<lambda>x y. is_empty (Difference x y) \<and> is_empty (Difference y x)),
      successor = successor_in\<rparr>"

section \<open>Vocabulary of the claims\<close>

subsection \<open>Endpoints of a range\<close>

text \<open>
  An endpoint of the range grammar is a hexadecimal literal (\<^verbatim>\<open>0x\<close> and at least one
  hexadecimal digit) or one character. It is plain when that character is none of the
  dash and the two brackets, which the range syntax itself uses. \<open>endpoint_code\<close> is the
  code an endpoint stands for.
\<close>

definition special_char :: "char \<Rightarrow> bool" where
  "special_char c = (c = CHR ''-'' \<or> c = CHR ''['' \<or> c = CHR '']'')"

definition hex_endpoint :: "string \<Rightarrow> bool" where
  "hex_endpoint s = (prefix ''0x'' s \<and> drop 2 s \<noteq> [] \<and> list_all is_hexdigit (drop 2 s))"

definition endpoint :: "string \<Rightarrow> bool" where
  "endpoint s = (hex_endpoint s \<or> length s = 1)"

definition plain_endpoint :: "string \<Rightarrow> bool" where
  "plain_endpoint s = (hex_endpoint s \<or> (length s = 1 \<and> \<not> special_char (hd s)))"

definition endpoint_code :: "string \<Rightarrow> int" where
  "endpoint_code s = (if hex_endpoint s then digits_value (drop 2 s) else of_char (hd s))"

subsection \<open>What a parsed graph describes\<close>

text \<open>
  The identifiers that occur in a transition, the character codes that occur in a
  character set, the identifiers that are no destination, and the accepting identifiers.
  \<open>codes_ok\<close> holds when \<^verbatim>\<open>chr\<close> accepts every code, \<open>finals_known\<close> when the self-loops
  of lines 153 to 155 find every accepting state among the keys (or have no symbol to
  loop on).
\<close>

definition state_ids :: "ParsedDFA \<Rightarrow> int set" where
  "state_ids pdfa = src ` set (ParsedDFA.transitions pdfa) \<union> dst ` set (ParsedDFA.transitions pdfa)"

definition alphabet :: "ParsedDFA \<Rightarrow> int set" where
  "alphabet pdfa = \<Union> (chars ` set (ParsedDFA.transitions pdfa))"

definition no_incoming :: "ParsedDFA \<Rightarrow> int set" where
  "no_incoming pdfa = state_ids pdfa - dst ` set (ParsedDFA.transitions pdfa)"

definition final_ids :: "ParsedDFA \<Rightarrow> int set" where
  "final_ids pdfa = fst ` set (finalnodes pdfa)"

definition codes_ok :: "ParsedDFA \<Rightarrow> bool" where
  "codes_ok pdfa = (\<forall>t \<in> set (ParsedDFA.transitions pdfa). \<forall>x \<in> chars t. 0 \<le> x \<and> x < 0x110000)"

definition finals_known :: "ParsedDFA \<Rightarrow> bool" where
  "finals_known pdfa = (alphabet pdfa = {} \<or> final_ids pdfa \<subseteq> state_ids pdfa)"

text \<open>
  A transition covers a symbol when it is unconditional (and the symbol is in the
  alphabet) or its character set holds the symbol. \<open>last_assign\<close> is the destination of
  the last transition of the list that leaves the state and covers the symbol.
\<close>

definition covers :: "symbol set \<Rightarrow> Transition \<Rightarrow> symbol \<Rightarrow> bool" where
  "covers syms t c = (if chars t = {} then c \<in> syms else c \<in> chars t)"

fun last_assign :: "symbol set \<Rightarrow> Transition list \<Rightarrow> string \<Rightarrow> symbol \<Rightarrow> string option" where
  "last_assign syms [] s c = None"
| "last_assign syms (t # ts) s c =
     (case last_assign syms ts s c of
        Some d \<Rightarrow> Some d
      | None \<Rightarrow> if mk_state (src t) = s \<and> covers syms t c then Some (mk_state (dst t)) else None)"






subsection \<open>Example graphs\<close>








subsection \<open>The contract of the automaton library\<close>

text \<open>
  The language-level meaning of the library operations the comparison uses, on the
  automata \<open>ok\<close> that the library works with: \<open>lang\<close> gives the set of words an automaton
  accepts; the difference and the union of automata are automata again and accept the
  difference and the union of the languages, \<^verbatim>\<open>isempty\<close> tests the language for
  emptiness, and two automata are equal when their languages are.
\<close>

definition language_algebra ::
  "'d automaton_library \<Rightarrow> ('d \<Rightarrow> bool) \<Rightarrow> ('d \<Rightarrow> symbol list set) \<Rightarrow> bool" where
  "language_algebra lib ok lang =
     (\<forall>x y. ok x \<and> ok y \<longrightarrow>
        ok (difference lib x y) \<and> ok (union_of lib x y)
        \<and> lang (difference lib x y) = lang x - lang y
        \<and> lang (union_of lib x y) = lang x \<union> lang y
        \<and> isempty lib x = (lang x = {})
        \<and> equal_to lib x y = (lang x = lang y))"

subsection \<open>Languages of built automata\<close>

text \<open>
  The language of the difference: the words the first automaton accepts and the second
  does not. The two example graphs accept the non-empty words over \<^verbatim>\<open>a\<close> and all words
  over \<^verbatim>\<open>a\<close>; they differ in the empty word only.
\<close>

definition difference_language :: "DFA \<Rightarrow> DFA \<Rightarrow> symbol list set" where
  "difference_language Z A = {w. accepts (Built Z) w \<and> \<not> accepts (Built A) w}"

definition a_plus_graph :: ParsedDFA where
  "a_plus_graph =
     \<lparr>ParsedDFA.transitions = [\<lparr>src = 0, dst = 1, chars = {97}\<rparr>, \<lparr>src = 1, dst = 1, chars = {97}\<rparr>],
      finalnodes = [(1, ''rule'')]\<rparr>"

definition a_star_graph :: ParsedDFA where
  "a_star_graph =
     \<lparr>ParsedDFA.transitions = [\<lparr>src = 0, dst = 1, chars = {97}\<rparr>, \<lparr>src = 1, dst = 1, chars = {97}\<rparr>],
      finalnodes = [(0, ''empty''), (1, ''rule'')]\<rparr>"



text \<open>
  A machine is well formed when its built automata have finitely many states, start in
  one of them and never leave them.
\<close>

fun well_formed :: "machine \<Rightarrow> bool" where
  "well_formed (Built A) =
     (finite (states A) \<and> initial_state A \<in> states A
      \<and> (\<forall>s \<in> states A. \<forall>c d. next_state (DFA.transitions A) s c = Some d \<longrightarrow> d \<in> states A))"
| "well_formed (Difference x y) = (well_formed x \<and> well_formed y)"
| "well_formed (Union_of x y) = (well_formed x \<and> well_formed y)"

fun configs :: "machine \<Rightarrow> config set" where
  "configs (Built A) = At ` insert None (Some ` states A)"
| "configs (Difference x y) = (\<lambda>(k, l). Both k l) ` (configs x \<times> configs y)"
| "configs (Union_of x y) = (\<lambda>(k, l). Both k l) ` (configs x \<times> configs y)"

text \<open>
  The automata the algebra of the specification works with, and their languages. The
  second library is that algebra with a broken \<^verbatim>\<open>isempty\<close> that always answers yes.
\<close>

definition machine_ok :: "machine \<Rightarrow> bool" where
  "machine_ok m = (well_formed m \<and> finite (symbols m))"

definition accepted :: "machine \<Rightarrow> symbol list set" where
  "accepted m = {w. accepts m w}"

definition broken_library :: "machine automaton_library" where
  "broken_library = spec_library\<lparr>isempty := (\<lambda>x. True)\<rparr>"

section \<open>Properties of the string functions\<close>

subsection \<open>\<^verbatim>\<open>str\<close> is injective: different identifiers are different states\<close>

lemma of_char_digit_char: "n < 10 \<Longrightarrow> (of_char (digit_char n) :: nat) = 48 + n"
proof -
  assume "n < 10"
  have "list_all (\<lambda>k. (of_char (digit_char k) :: nat) = 48 + k) [0..<10]"
    by code_simp
  with \<open>n < 10\<close> show ?thesis by (simp add: list_all_iff)
qed

lemma digit_char_inj: "n < 10 \<Longrightarrow> m < 10 \<Longrightarrow> digit_char n = digit_char m \<Longrightarrow> n = m"
  by (metis of_char_digit_char add_left_cancel)

lemma digit_char_not_minus: "n < 10 \<Longrightarrow> digit_char n \<noteq> CHR ''-''"
proof
  assume "n < 10" and "digit_char n = CHR ''-''"
  then have "(48::nat) + n = of_char (CHR ''-'')" using of_char_digit_char by metis
  then show False by simp
qed

lemma str_nat_small: "n < 10 \<Longrightarrow> str_nat n = [digit_char n]"
  by (simp add: str_nat.simps)

lemma str_nat_large: "\<not> n < 10 \<Longrightarrow> str_nat n = str_nat (n div 10) @ [digit_char (n mod 10)]"
  by (subst str_nat.simps) simp

lemma str_nat_not_Nil: "str_nat n \<noteq> []"
  by (cases "n < 10") (simp_all add: str_nat_small str_nat_large)

lemma str_nat_not_Nil': "[] \<noteq> str_nat n"
  using str_nat_not_Nil [of n] by simp

lemma hd_str_nat: "hd (str_nat n) \<noteq> CHR ''-''"
proof (induction n rule: str_nat.induct)
  case (1 n)
  show ?case
  proof (cases "n < 10")
    case True
    then show ?thesis by (simp add: str_nat_small digit_char_not_minus)
  next
    case False
    then show ?thesis using 1 by (simp add: str_nat_large str_nat_not_Nil)
  qed
qed

lemma str_nat_inj: "str_nat n = str_nat m \<Longrightarrow> n = m"
proof (induction n arbitrary: m rule: str_nat.induct)
  case (1 n)
  show ?case
  proof (cases "n < 10")
    case n: True
    show ?thesis
    proof (cases "m < 10")
      case True
      with n 1(2) show ?thesis by (simp add: str_nat_small digit_char_inj)
    next
      case False
      with n 1(2) show ?thesis by (simp add: str_nat_small str_nat_large str_nat_not_Nil str_nat_not_Nil')
    qed
  next
    case n: False
    show ?thesis
    proof (cases "m < 10")
      case True
      with n 1(2) show ?thesis by (simp add: str_nat_small str_nat_large str_nat_not_Nil str_nat_not_Nil')
    next
      case False
      with n 1(2) have eq: "str_nat (n div 10) = str_nat (m div 10)"
        and d: "digit_char (n mod 10) = digit_char (m mod 10)"
        by (simp_all add: str_nat_large)
      from 1(1) [OF n eq] have "n div 10 = m div 10" .
      moreover from d have "n mod 10 = m mod 10" by (simp add: digit_char_inj)
      ultimately show ?thesis by (metis div_mult_mod_eq)
    qed
  qed
qed

lemma str_inj: "str x = str y \<Longrightarrow> x = y"
proof -
  assume eq: "str x = str y"
  have neg: "\<And>a b. a < 0 \<Longrightarrow> \<not> b < 0 \<Longrightarrow> str a \<noteq> str b"
  proof
    fix a b :: int
    assume "a < 0" "\<not> b < 0" "str a = str b"
    then have "CHR ''-'' # str_nat (nat (- a)) = str_nat (nat b)" by (simp add: str_def)
    then have "hd (str_nat (nat b)) = CHR ''-''" by (metis list.sel(1))
    then show False using hd_str_nat by blast
  qed
  show ?thesis
  proof (cases "x < 0")
    case x: True
    show ?thesis
    proof (cases "y < 0")
      case True
      with x eq have "nat (- x) = nat (- y)" by (simp add: str_def str_nat_inj)
      with x True show ?thesis by simp
    next
      case False
      with x eq neg show ?thesis by blast
    qed
  next
    case x: False
    show ?thesis
    proof (cases "y < 0")
      case True
      with x eq neg [of y x] show ?thesis by simp
    next
      case False
      with x eq have "nat x = nat y" by (simp add: str_def str_nat_inj)
      with x False show ?thesis by simp
    qed
  qed
qed

lemma mk_state_inj: "mk_state x = mk_state y \<longleftrightarrow> x = y"
  using str_inj by (auto simp: mk_state_def)

section \<open>Properties of the Character Range Decoder\<close>

lemmas decoder_defs =
  parse_char_ranges_def strip_chars_def split_sep_def p_def ord_def
  int16_def int16_signed_def int16_prefixed_def int16_digits_def is_digit_or_underscore_def
  digits_ok_def digits_value_def hexval_def is_hexdigit_def is_space_def is_int_space_def

lemma decode_hex_groups:
  "parse_char_ranges ''[0x00-0x03][0x05-0x07]'' = Inr ({0..3} \<union> {5..7})"
  by (simp add: decoder_defs)

lemma decode_letter_groups:
  "parse_char_ranges ''[a-c][e-g]'' = Inr ({97..99} \<union> {101..103})"
  by (simp add: decoder_defs)

lemma decode_all_bytes: "parse_char_ranges ''[0x00-0xFF]'' = Inr {0..255}"
  by (simp add: decoder_defs)

lemma decode_mixed_groups:
  "parse_char_ranges ''[0x00-a][c-0xFF]'' = Inr ({0..97} \<union> {99..255})"
  by (simp add: decoder_defs)

subsection \<open>Splitting and stripping\<close>

lemma split_from_no_sep:
  "sep \<noteq> [] \<Longrightarrow> hd sep \<notin> set s \<Longrightarrow> split_from sep cur s = [cur @ s]"
  by (induction s arbitrary: cur) (auto simp: prefix_Cons)

lemma split_from_single:
  "d \<notin> set a \<Longrightarrow> split_from [d] cur (a @ d # b) = (cur @ a) # split_from [d] [] b"
  by (induction a arbitrary: cur) auto

lemma split_dash_pair:
  assumes "CHR ''-'' \<notin> set a" and "CHR ''-'' \<notin> set b"
  shows "split_sep ''-'' (a @ ''-'' @ b) = [a, b]"
  using assms by (simp add: split_sep_def split_from_single split_from_no_sep)

lemma split_groups_single:
  assumes "CHR '']'' \<notin> set m"
  shows "split_sep ''][''  m = [m]"
  using assms by (simp add: split_sep_def split_from_no_sep)

lemma strip_chars_middle:
  assumes "\<forall>c \<in> set pre. c \<in> set cs" and "\<forall>c \<in> set post. c \<in> set cs"
    and "m \<noteq> []" and "hd m \<notin> set cs" and "last m \<notin> set cs"
  shows "strip_chars cs (pre @ m @ post) = m"
proof -
  from assms(3,4) have "dropWhile (\<lambda>c. c \<in> set cs) m = m"
    by (cases m) auto
  with assms(1) have front: "dropWhile (\<lambda>c. c \<in> set cs) (pre @ m @ post) = m @ post"
    using assms(3,4) by (cases m) (auto simp: dropWhile_append)
  from assms(3,5) have "dropWhile (\<lambda>c. c \<in> set cs) (rev m) = rev m"
    by (cases m rule: rev_cases) auto
  with assms(2) have "dropWhile (\<lambda>c. c \<in> set cs) (rev post @ rev m) = rev m"
    using assms(3,5) by (cases m rule: rev_cases) (auto simp: dropWhile_append)
  with front show ?thesis by (simp add: strip_chars_def)
qed

lemma hexdigit_plain: "is_hexdigit c \<Longrightarrow> \<not> special_char c \<and> c \<noteq> CHR ''_'' \<and> \<not> is_space c"
  by (auto simp: is_hexdigit_def hexval_def special_char_def is_space_def Let_def split: if_splits)

lemma no_double_underscore_plain: "CHR ''_'' \<notin> set ds \<Longrightarrow> no_double_underscore ds"
  by (induction ds rule: no_double_underscore.induct) auto

lemma int16_digits_plain:
  assumes "ds \<noteq> []" and "list_all is_hexdigit ds"
  shows "int16_digits ds = Inr (digits_value ds)"
proof -
  from assms(2) have all: "\<forall>c \<in> set ds. is_digit_or_underscore c"
    by (simp add: list_all_iff is_digit_or_underscore_def)
  then have tw: "takeWhile is_digit_or_underscore ds = ds"
    and dw: "dropWhile is_digit_or_underscore ds = []"
    by simp_all
  from assms(2) have nu: "CHR ''_'' \<notin> set ds"
    using hexdigit_plain by (auto simp: list_all_iff)
  with assms(1) have "hd ds \<noteq> CHR ''_''" and "last ds \<noteq> CHR ''_''"
    by (metis hd_in_set, metis last_in_set)
  with assms(1) nu have "digits_ok ds"
    by (simp add: digits_ok_def no_double_underscore_plain)
  then show ?thesis by (simp add: int16_digits_def tw dw)
qed

lemma p_hex_endpoint:
  assumes "hex_endpoint s"
  shows "p s = Inr (digits_value (drop 2 s))"
proof -
  from assms obtain ds where s: "s = ''0x'' @ ds" and ne: "ds \<noteq> []" and hx: "list_all is_hexdigit ds"
    by (auto simp: hex_endpoint_def prefix_def)
  from ne hx have "is_hexdigit (hd ds)" by (cases ds) auto
  then have "hd ds \<noteq> CHR ''_''" using hexdigit_plain by blast
  with ne have np: "\<not> prefix ''_'' ds" by (cases ds) auto
  have "int16 s = int16_digits ds"
    using np by (simp add: s int16_def int16_signed_def int16_prefixed_def is_int_space_def)
  then show ?thesis
    using int16_digits_plain [OF ne hx] by (simp add: p_def s)
qed

lemma p_char_endpoint:
  assumes "length s = 1"
  shows "p s = Inr (of_char (hd s))"
proof -
  from assms obtain c where "s = [c]" by (cases s) auto
  then show ?thesis by (simp add: p_def ord_def)
qed

lemma plain_endpoint_chars:
  assumes "plain_endpoint s"
  shows "s \<noteq> []" and "\<forall>c \<in> set s. \<not> special_char c"
proof -
  show "s \<noteq> []" using assms by (auto simp: plain_endpoint_def hex_endpoint_def)
  show "\<forall>c \<in> set s. \<not> special_char c"
  proof (cases "hex_endpoint s")
    case True
    then obtain ds where s: "s = ''0x'' @ ds" and hx: "list_all is_hexdigit ds"
      by (auto simp: hex_endpoint_def prefix_def)
    then show ?thesis using hexdigit_plain by (auto simp: list_all_iff special_char_def)
  next
    case False
    with assms obtain c where "s = [c]" and "\<not> special_char c"
      by (cases s) (auto simp: plain_endpoint_def)
    then show ?thesis by simp
  qed
qed

lemma p_endpoint: "endpoint s \<Longrightarrow> p s = Inr (endpoint_code s)"
  by (auto simp: endpoint_def endpoint_code_def p_hex_endpoint p_char_endpoint)

lemma plain_endpoint_hd_last:
  assumes "plain_endpoint s"
  shows "\<not> special_char (hd s)" and "\<not> special_char (last s)"
  using plain_endpoint_chars [OF assms] by simp_all

text \<open>A group whose middle \<open>m\<close> holds no bracket is one part, \<open>m\<close> itself.\<close>

lemma decode_one_group:
  assumes "m \<noteq> []" and "\<forall>c \<in> set m. c \<noteq> CHR ''['' \<and> c \<noteq> CHR '']''"
    and "\<forall>c \<in> set pre. c \<in> set ''[]''" and "\<forall>c \<in> set post. c \<in> set ''[]''"
  shows "parse_char_ranges (pre @ m @ post) = parse_parts [m] {}"
proof -
  from assms(1,2) have "hd m \<notin> set ''[]''" and "last m \<notin> set ''[]''"
    by (metis hd_in_set list.set(2) list.simps(15) insert_iff empty_iff empty_set,
        metis last_in_set list.set(2) list.simps(15) insert_iff empty_iff empty_set)
  then have "strip_chars ''[]'' (pre @ m @ post) = m"
    using assms by (intro strip_chars_middle) auto
  moreover have "split_sep ''][''  m = [m]"
    by (rule split_groups_single) (use assms(2) in auto)
  ultimately show ?thesis by (simp add: parse_char_ranges_def)
qed

lemma decode_range:
  assumes "plain_endpoint a" and "plain_endpoint b"
  shows "parse_char_ranges (''['' @ a @ ''-'' @ b @ '']'')
         = Inr {min (endpoint_code a) (endpoint_code b) .. max (endpoint_code a) (endpoint_code b)}"
proof -
  let ?m = "a @ ''-'' @ b"
  from assms have pl: "\<forall>c \<in> set a \<union> set b. \<not> special_char c"
    using plain_endpoint_chars(2) by blast
  then have nb: "\<forall>c \<in> set ?m. c \<noteq> CHR ''['' \<and> c \<noteq> CHR '']''"
    by (auto simp: special_char_def)
  have ea: "endpoint a" and eb: "endpoint b"
    using assms by (auto simp: endpoint_def plain_endpoint_def)
  have "parse_char_ranges (''['' @ ?m @ '']'') = parse_parts [?m] {}"
    by (rule decode_one_group) (use nb in auto)
  moreover have "split_sep ''-'' ?m = [a, b]"
    by (rule split_dash_pair) (use pl in \<open>auto simp: special_char_def\<close>)
  ultimately show ?thesis
    using p_endpoint [OF ea] p_endpoint [OF eb] by simp
qed

text \<open>A bracket or a dash as one endpoint: both orders raise the same exception.\<close>

lemma p_empty: "p [] = Inl TypeError"
  by (simp add: p_def ord_def)

lemma decode_dash_endpoint:
  assumes "plain_endpoint b"
  shows "parse_char_ranges (''['' @ ''-'' @ ''-'' @ b @ '']'') = Inl ValueError"
    and "parse_char_ranges (''['' @ b @ ''-'' @ ''-'' @ '']'') = Inl ValueError"
proof -
  from assms have pl: "\<forall>c \<in> set b. \<not> special_char c" and ne: "b \<noteq> []"
    using plain_endpoint_chars by blast+
  then have nd: "CHR ''-'' \<notin> set b" by (auto simp: special_char_def)
  have "parse_char_ranges (''['' @ (''--'' @ b) @ '']'') = parse_parts [''--'' @ b] {}"
    by (rule decode_one_group) (use pl in \<open>auto simp: special_char_def\<close>)
  moreover have "split_sep ''-'' (''--'' @ b) = [[], [], b]"
    using split_from_single [of "CHR ''-''" "[]" "[]" "''-'' @ b"]
      split_from_single [of "CHR ''-''" "[]" "[]" b] nd
    by (simp add: split_sep_def split_from_no_sep)
  ultimately show "parse_char_ranges (''['' @ ''-'' @ ''-'' @ b @ '']'') = Inl ValueError"
    by simp
  have "parse_char_ranges (''['' @ (b @ ''--'') @ '']'') = parse_parts [b @ ''--''] {}"
    by (rule decode_one_group) (use pl in \<open>auto simp: special_char_def\<close>)
  moreover have "split_sep ''-'' (b @ ''--'') = [b, [], []]"
    using split_from_single [of "CHR ''-''" b "[]" "''-''"] nd
    by (simp add: split_sep_def)
  ultimately show "parse_char_ranges (''['' @ b @ ''-'' @ ''-'' @ '']'') = Inl ValueError"
    by simp
qed

lemma decode_bracket_endpoint:
  assumes "plain_endpoint b" and "k = CHR ''['' \<or> k = CHR '']''"
  shows "parse_char_ranges (''['' @ [k] @ ''-'' @ b @ '']'') = Inl TypeError"
    and "parse_char_ranges (''['' @ b @ ''-'' @ [k] @ '']'') = Inl TypeError"
proof -
  from assms have pl: "\<forall>c \<in> set b. \<not> special_char c" and ne: "b \<noteq> []"
    using plain_endpoint_chars by blast+
  then have nd: "CHR ''-'' \<notin> set b" by (auto simp: special_char_def)
  have eb: "endpoint b" using assms(1) by (auto simp: endpoint_def plain_endpoint_def)
  have "parse_char_ranges ((''['' @ [k]) @ (''-'' @ b) @ '']'') = parse_parts [''-'' @ b] {}"
    by (rule decode_one_group) (use pl assms(2) in \<open>auto simp: special_char_def\<close>)
  moreover have "split_sep ''-'' (''-'' @ b) = [[], b]"
    using split_from_single [of "CHR ''-''" "[]" "[]" b] nd
    by (simp add: split_sep_def split_from_no_sep)
  ultimately show "parse_char_ranges (''['' @ [k] @ ''-'' @ b @ '']'') = Inl TypeError"
    by (simp add: p_empty)
  have "parse_char_ranges (''['' @ (b @ ''-'') @ ([k] @ '']'')) = parse_parts [b @ ''-''] {}"
    by (rule decode_one_group) (use pl assms(2) in \<open>auto simp: special_char_def\<close>)
  moreover have "split_sep ''-'' (b @ ''-'') = [b, []]"
    using split_from_single [of "CHR ''-''" b "[]" "[]"] nd
    by (simp add: split_sep_def)
  ultimately show "parse_char_ranges (''['' @ b @ ''-'' @ [k] @ '']'') = Inl TypeError"
    using p_endpoint [OF eb] by (simp add: p_empty)
qed

lemma decode_two_special:
  assumes "special_char c" and "special_char d"
  shows "parse_char_ranges (''['' @ [d] @ ''-'' @ [c] @ '']'')
         = parse_char_ranges (''['' @ [c] @ ''-'' @ [d] @ '']'')"
  using assms unfolding special_char_def
  by (elim disjE) (simp_all add: parse_char_ranges_def strip_chars_def split_sep_def p_empty)

lemma endpoint_cases:
  assumes "endpoint s"
  obtains "plain_endpoint s" | c where "s = [c]" and "special_char c"
proof (cases "plain_endpoint s")
  case True
  then show ?thesis using that by blast
next
  case False
  with assms obtain c where "s = [c]" and "special_char c"
    by (cases s) (auto simp: endpoint_def plain_endpoint_def)
  then show ?thesis using that by blast
qed

lemma decode_reversed:
  assumes "endpoint a" and "endpoint b"
  shows "parse_char_ranges (''['' @ b @ ''-'' @ a @ '']'') = parse_char_ranges (''['' @ a @ ''-'' @ b @ '']'')"
proof -
  from assms(1) consider (plain_a) "plain_endpoint a" | (special_a) c where "a = [c]" "special_char c"
    by (rule endpoint_cases)
  then show ?thesis
  proof cases
    case plain_a
    from assms(2) consider (plain_b) "plain_endpoint b" | (special_b) d where "b = [d]" "special_char d"
      by (rule endpoint_cases)
    then show ?thesis
    proof cases
      case plain_b
      then show ?thesis
        using decode_range [OF plain_a plain_b] decode_range [OF plain_b plain_a]
        by (simp add: min.commute max.commute)
    next
      case special_b
      then show ?thesis
        using decode_dash_endpoint [OF plain_a] decode_bracket_endpoint [OF plain_a, of d]
        by (auto simp: special_char_def)
    qed
  next
    case special_a
    from assms(2) consider (plain_b) "plain_endpoint b" | (special_b) d where "b = [d]" "special_char d"
      by (rule endpoint_cases)
    then show ?thesis
    proof cases
      case plain_b
      then show ?thesis
        using special_a decode_dash_endpoint [OF plain_b] decode_bracket_endpoint [OF plain_b, of c]
        by (auto simp: special_char_def)
    next
      case special_b
      then show ?thesis using special_a decode_two_special [of c d] by simp
    qed
  qed
qed

text \<open>
  C8: the results that \<^verbatim>\<open>test_range_parsing\<close> asserts. The decoder returns the set
  \<open>{98}\<close> for \<^verbatim>\<open>[b]\<close>, and sets of 7, 6, 256 and 255 codes for the four other range
  strings of the test; the sizes are those of the sets it returns.
\<close>

theorem parse_char_ranges_test_values:
  "parse_char_ranges ''[b]'' = Inr {98}
   \<and> map_sum id card (parse_char_ranges ''[0x00-0x03][0x05-0x07]'') = Inr 7
   \<and> map_sum id card (parse_char_ranges ''[a-c][e-g]'') = Inr 6
   \<and> map_sum id card (parse_char_ranges ''[0x00-0xFF]'') = Inr 256
   \<and> map_sum id card (parse_char_ranges ''[0x00-a][c-0xFF]'') = Inr 255"
proof -
  have "parse_char_ranges ''[b]'' = Inr {98}"
    by (simp add: decoder_defs)
  moreover have "card ({0..3} \<union> {5..7::int}) = 7"
    by (simp add: card_Un_disjoint)
  moreover have "card ({97..99} \<union> {101..103::int}) = 6"
    by (simp add: card_Un_disjoint)
  moreover have "card {0..255::int} = 256"
    by simp
  moreover have "card ({0..97} \<union> {99..255::int}) = 255"
    by (simp add: card_Un_disjoint)
  ultimately show ?thesis
    by (simp add: decode_hex_groups decode_letter_groups decode_all_bytes decode_mixed_groups)
qed

text \<open>
  C9: a range written with its bounds in either order decodes alike. For all endpoints
  \<open>a\<close> and \<open>b\<close> of the grammar (hexadecimal literals and single characters, mixed
  freely) the decoder gives the same result for \<^verbatim>\<open>[b-a]\<close> as for \<^verbatim>\<open>[a-b]\<close>; for plain
  endpoints that result is the set of all codes between the two endpoint codes.
\<close>

theorem reversed_range_same_set:
  "(endpoint a \<and> endpoint b \<longrightarrow>
      parse_char_ranges (''['' @ b @ ''-'' @ a @ '']'') = parse_char_ranges (''['' @ a @ ''-'' @ b @ '']''))
   \<and> (plain_endpoint a \<and> plain_endpoint b \<longrightarrow>
      parse_char_ranges (''['' @ a @ ''-'' @ b @ '']'')
        = Inr {min (endpoint_code a) (endpoint_code b) .. max (endpoint_code a) (endpoint_code b)})"
  using decode_reversed decode_range by blast

theorem reversed_range_same_set_witness:
  "parse_char_ranges ''[z-0x41]'' = parse_char_ranges ''[0x41-z]''
   \<and> parse_char_ranges ''[0x41-z]'' = Inr {65..122}"
proof -
  have a: "plain_endpoint ''0x41''"
    by (simp add: plain_endpoint_def hex_endpoint_def is_hexdigit_def hexval_def)
  have b: "plain_endpoint ''z''"
    by (simp add: plain_endpoint_def special_char_def)
  have a': "endpoint ''0x41''" and b': "endpoint ''z''"
    using a b by (auto simp: endpoint_def plain_endpoint_def)
  have ca: "endpoint_code ''0x41'' = 65"
    by (simp add: endpoint_code_def hex_endpoint_def is_hexdigit_def hexval_def digits_value_def)
  have cb: "endpoint_code ''z'' = 122"
    by (simp add: endpoint_code_def hex_endpoint_def)
  show ?thesis
    using reversed_range_same_set [of "''0x41''" "''z''"] a b a' b' by (simp add: ca cb)
qed

section \<open>Properties of the Automaton Builder\<close>

subsection \<open>The loops of the builder\<close>

lemma chr_all_eq:
  "chr_all S = (if \<forall>x \<in> S. 0 \<le> x \<and> x < 0x110000 then Inr S else Inl ValueError)"
proof (cases "\<forall>x \<in> S. 0 \<le> x \<and> x < 0x110000")
  case True
  then have "(projr \<circ> chr) ` S = S" by (force simp: chr_def)
  with True show ?thesis by (auto simp: chr_all_def chr_def)
next
  case False
  then show ?thesis by (auto simp: chr_all_def chr_def)
qed

lemma scan_transitions_eq:
  "scan_transitions ts (S, Y, N) =
     (if \<forall>t \<in> set ts. \<forall>x \<in> chars t. 0 \<le> x \<and> x < 0x110000
      then Inr (S \<union> mk_state ` (src ` set ts \<union> dst ` set ts), Y \<union> \<Union> (chars ` set ts),
                N \<union> mk_state ` dst ` set ts)
      else Inl ValueError)"
proof (induction ts arbitrary: S Y N)
  case Nil
  then show ?case by simp
next
  case (Cons t ts)
  show ?case
  proof (cases "\<forall>x \<in> chars t. 0 \<le> x \<and> x < 0x110000")
    case True
    then show ?thesis
      by (simp add: chr_all_eq Cons.IH) (auto simp: image_Un)
  next
    case False
    then show ?thesis by (auto simp: chr_all_eq)
  qed
qed

lemma set_edges_eq:
  assumes "tr (mk_state (src t)) = Some row" and "\<forall>x \<in> chars t. 0 \<le> x \<and> x < 0x110000"
  shows "set_edges syms tr t =
           Inr (tr(mk_state (src t) \<mapsto>
                  assign_all row (if chars t = {} then syms else chars t) (mk_state (dst t))))"
proof -
  have "assign_all row {} (mk_state (dst t)) = row" by (simp add: assign_all_def)
  then have "tr(mk_state (src t) \<mapsto> assign_all row {} (mk_state (dst t))) = tr"
    using assms(1) by (simp add: fun_upd_idem)
  then show ?thesis using assms by (simp add: set_edges_def chr_all_eq)
qed

lemma next_state_update:
  "next_state (tr(q \<mapsto> assign_all row X d)) s c =
     (if s = q \<and> c \<in> X then Some d else if s = q then row c else next_state tr s c)"
  by (simp add: next_state_def assign_all_def)

lemma apply_transitions_ok:
  assumes "\<forall>t \<in> set ts. tr (mk_state (src t)) \<noteq> None"
    and "\<forall>t \<in> set ts. \<forall>x \<in> chars t. 0 \<le> x \<and> x < 0x110000"
  shows "\<exists>tr'. apply_transitions syms ts tr = Inr tr' \<and> dom tr' = dom tr
           \<and> (\<forall>s c. next_state tr' s c =
                 (case last_assign syms ts s c of Some d \<Rightarrow> Some d | None \<Rightarrow> next_state tr s c))"
  using assms
proof (induction ts arbitrary: tr)
  case Nil
  then show ?case by simp
next
  case (Cons t ts)
  define q where "q = mk_state (src t)"
  define X where "X = (if chars t = {} then syms else chars t)"
  from Cons.prems(1) obtain row where row: "tr q = Some row" by (auto simp: q_def)
  define tr1 where "tr1 = tr(q \<mapsto> assign_all row X (mk_state (dst t)))"
  have step: "set_edges syms tr t = Inr tr1"
    using row Cons.prems(2) by (simp add: set_edges_eq q_def X_def tr1_def)
  have dom1: "dom tr1 = dom tr" using row by (auto simp: tr1_def)
  have pre1: "\<forall>u \<in> set ts. tr1 (mk_state (src u)) \<noteq> None"
    using Cons.prems(1) by (simp add: tr1_def)
  have pre2: "\<forall>u \<in> set ts. \<forall>x \<in> chars u. 0 \<le> x \<and> x < 0x110000"
    using Cons.prems(2) by simp
  from Cons.IH [OF pre1 pre2]
  obtain tr' where tr': "apply_transitions syms ts tr1 = Inr tr'" "dom tr' = dom tr1"
    and suc: "\<And>s c. next_state tr' s c =
                 (case last_assign syms ts s c of Some d \<Rightarrow> Some d | None \<Rightarrow> next_state tr1 s c)"
    by blast
  have cov: "\<And>c. covers syms t c \<longleftrightarrow> c \<in> X"
    by (simp add: covers_def X_def)
  have s1: "\<And>s c. next_state tr1 s c =
               (if s = q \<and> covers syms t c then Some (mk_state (dst t)) else next_state tr s c)"
    using row by (simp add: tr1_def cov next_state_def assign_all_def)
  have "\<forall>s c. next_state tr' s c =
          (case last_assign syms (t # ts) s c of Some d \<Rightarrow> Some d | None \<Rightarrow> next_state tr s c)"
    by (auto simp: suc s1 q_def split: option.splits)
  with step tr' dom1 show ?case by simp
qed

lemma init_self_loops_ok:
  assumes "syms = {} \<or> finals \<subseteq> sts"
  shows "\<exists>tr1. init_self_loops (\<lambda>s. if s \<in> sts then Some Map.empty else None) finals syms = Inr tr1
           \<and> dom tr1 = sts
           \<and> (\<forall>s c. next_state tr1 s c = (if s \<in> finals \<and> s \<in> sts \<and> c \<in> syms then Some s else None))"
proof (cases "syms = {}")
  case True
  then show ?thesis
    by (auto simp: init_self_loops_def next_state_def dom_def split: if_splits)
next
  case False
  with assms have sub: "finals \<subseteq> sts" by simp
  then have "\<not> (\<exists>fs \<in> finals. (if fs \<in> sts then Some Map.empty else None) = (None :: (symbol \<rightharpoonup> string) option))"
    by auto
  with False show ?thesis
    by (auto simp: init_self_loops_def next_state_def assign_all_def dom_def split: if_splits)
qed

lemma init_self_loops_KeyError:
  assumes "syms \<noteq> {}" and "\<not> finals \<subseteq> sts"
  shows "init_self_loops (\<lambda>s. if s \<in> sts then Some Map.empty else None) finals syms = Inl KeyError"
  using assms by (auto simp: init_self_loops_def)

subsection \<open>What the builder returns\<close>

lemma inj_mk_state: "inj mk_state"
  by (simp add: inj_def mk_state_inj)

lemma start_candidates:
  "mk_state ` state_ids pdfa - mk_state ` dst ` set (ParsedDFA.transitions pdfa)
     = mk_state ` no_incoming pdfa"
  by (simp add: no_incoming_def image_set_diff [OF inj_mk_state])

lemma finite_state_ids: "finite (state_ids pdfa)"
  by (simp add: state_ids_def)

lemma finite_no_incoming: "finite (no_incoming pdfa)"
  by (simp add: no_incoming_def finite_state_ids)


lemma pick_start_Inr: "pick_start S = Inr q \<longleftrightarrow> S = {q}"
proof
  assume "pick_start S = Inr q"
  then have c: "card S = 1" and q: "q = the_elem S"
    by (auto simp: pick_start_def split: if_splits)
  from c obtain x where "S = {x}" by (auto simp: card_1_singleton_iff)
  with q show "S = {q}" by simp
next
  assume "S = {q}"
  then show "pick_start S = Inr q" by (simp add: pick_start_def)
qed


lemma scan_pdfa:
  "scan_transitions (ParsedDFA.transitions pdfa) ({}, {}, {}) =
     (if codes_ok pdfa
      then Inr (mk_state ` state_ids pdfa, alphabet pdfa, mk_state ` dst ` set (ParsedDFA.transitions pdfa))
      else Inl ValueError)"
  by (simp add: scan_transitions_eq codes_ok_def state_ids_def alphabet_def)

lemma finals_known_iff:
  "finals_known pdfa \<longleftrightarrow>
     alphabet pdfa = {} \<or> (mk_state \<circ> fst) ` set (finalnodes pdfa) \<subseteq> mk_state ` state_ids pdfa"
proof -
  have "(mk_state \<circ> fst) ` set (finalnodes pdfa) = mk_state ` final_ids pdfa"
    by (simp add: final_ids_def image_comp)
  then show ?thesis
    by (simp add: finals_known_def inj_image_subset_iff [OF inj_mk_state])
qed

lemma build_ValueError:
  "\<not> codes_ok pdfa \<Longrightarrow> parsed_dfa_to_automaton pdfa = Inl ValueError"
  by (simp add: parsed_dfa_to_automaton_def scan_pdfa)

lemma build_KeyError:
  assumes "codes_ok pdfa" and "\<not> finals_known pdfa"
  shows "parsed_dfa_to_automaton pdfa = Inl KeyError"
proof -
  from assms(2) have "alphabet pdfa \<noteq> {}"
    and "\<not> (mk_state \<circ> fst) ` set (finalnodes pdfa) \<subseteq> mk_state ` state_ids pdfa"
    by (simp_all add: finals_known_iff)
  then have "init_self_loops (\<lambda>s. if s \<in> mk_state ` state_ids pdfa then Some Map.empty else None)
               ((mk_state \<circ> fst) ` set (finalnodes pdfa)) (alphabet pdfa) = Inl KeyError"
    by (rule init_self_loops_KeyError)
  with assms(1) show ?thesis
    by (simp add: parsed_dfa_to_automaton_def scan_pdfa)
qed

text \<open>The transition function the two loops leave behind, when they finish.\<close>

lemma build_loops_ok:
  assumes "codes_ok pdfa" and "finals_known pdfa"
  shows "\<exists>tr2. parsed_dfa_to_automaton pdfa =
            (case pick_start (mk_state ` no_incoming pdfa) of
               Inl e \<Rightarrow> Inl e
             | Inr q0 \<Rightarrow>
                 Inr \<lparr>states = mk_state ` state_ids pdfa, input_symbols = alphabet pdfa,
                      transitions = tr2, initial_state = q0,
                      final_states = mk_state ` final_ids pdfa\<rparr>)
          \<and> dom tr2 = mk_state ` state_ids pdfa
          \<and> (\<forall>s c. next_state tr2 s c =
                (case last_assign (alphabet pdfa) (ParsedDFA.transitions pdfa) s c of
                   Some d \<Rightarrow> Some d
                 | None \<Rightarrow>
                     if s \<in> mk_state ` final_ids pdfa \<and> s \<in> mk_state ` state_ids pdfa
                        \<and> c \<in> alphabet pdfa
                     then Some s else None))"
proof -
  let ?ts = "ParsedDFA.transitions pdfa"
  let ?sts = "mk_state ` state_ids pdfa"
  let ?fin = "(mk_state \<circ> fst) ` set (finalnodes pdfa)"
  have fin: "?fin = mk_state ` final_ids pdfa"
    by (simp add: final_ids_def image_comp)
  from assms(2) have "alphabet pdfa = {} \<or> ?fin \<subseteq> ?sts"
    by (simp add: finals_known_iff)
  from init_self_loops_ok [OF this]
  obtain tr1 where tr1: "init_self_loops (\<lambda>s. if s \<in> ?sts then Some Map.empty else None) ?fin (alphabet pdfa) = Inr tr1"
    and dom1: "dom tr1 = ?sts"
    and suc1: "\<And>s c. next_state tr1 s c =
                 (if s \<in> ?fin \<and> s \<in> ?sts \<and> c \<in> alphabet pdfa then Some s else None)"
    by blast
  have "\<forall>t \<in> set ?ts. mk_state (src t) \<in> dom tr1"
    by (auto simp: dom1 state_ids_def)
  then have pre1: "\<forall>t \<in> set ?ts. tr1 (mk_state (src t)) \<noteq> None"
    by (auto simp: dom_def)
  have pre2: "\<forall>t \<in> set ?ts. \<forall>x \<in> chars t. 0 \<le> x \<and> x < 0x110000"
    using assms(1) by (simp add: codes_ok_def)
  from apply_transitions_ok [OF pre1 pre2, of "alphabet pdfa"]
  obtain tr2 where tr2: "apply_transitions (alphabet pdfa) ?ts tr1 = Inr tr2"
    and dom2: "dom tr2 = dom tr1"
    and suc2: "\<And>s c. next_state tr2 s c =
                 (case last_assign (alphabet pdfa) ?ts s c of
                    Some d \<Rightarrow> Some d | None \<Rightarrow> next_state tr1 s c)"
    by blast
  have "parsed_dfa_to_automaton pdfa =
          (case pick_start (?sts - mk_state ` dst ` set ?ts) of
             Inl e \<Rightarrow> Inl e
           | Inr q0 \<Rightarrow>
               Inr \<lparr>states = ?sts, input_symbols = alphabet pdfa, transitions = tr2,
                    initial_state = q0, final_states = ?fin\<rparr>)"
    using assms(1) tr1 tr2
    by (simp add: parsed_dfa_to_automaton_def scan_pdfa comp_def split: sum.splits)
  then have "parsed_dfa_to_automaton pdfa =
          (case pick_start (mk_state ` no_incoming pdfa) of
             Inl e \<Rightarrow> Inl e
           | Inr q0 \<Rightarrow>
               Inr \<lparr>states = ?sts, input_symbols = alphabet pdfa, transitions = tr2,
                    initial_state = q0, final_states = mk_state ` final_ids pdfa\<rparr>)"
    by (simp only: start_candidates fin)
  moreover have "dom tr2 = ?sts" using dom1 dom2 by simp
  moreover have "\<forall>s c. next_state tr2 s c =
                (case last_assign (alphabet pdfa) ?ts s c of
                   Some d \<Rightarrow> Some d
                 | None \<Rightarrow>
                     if s \<in> mk_state ` final_ids pdfa \<and> s \<in> ?sts \<and> c \<in> alphabet pdfa
                     then Some s else None)"
    by (simp add: suc2 suc1 final_ids_def image_image comp_def split: option.splits)
  ultimately show ?thesis by blast
qed

text \<open>Everything a returned automaton tells about the parsed graph.\<close>

lemma build_Inr:
  assumes "parsed_dfa_to_automaton pdfa = Inr A"
  shows "codes_ok pdfa" and "finals_known pdfa"
    and "states A = mk_state ` state_ids pdfa"
    and "input_symbols A = alphabet pdfa"
    and "final_states A = mk_state ` final_ids pdfa"
    and "mk_state ` no_incoming pdfa = {initial_state A}"
    and "dom (DFA.transitions A) = mk_state ` state_ids pdfa"
    and "\<And>s c. next_state (DFA.transitions A) s c =
           (case last_assign (alphabet pdfa) (ParsedDFA.transitions pdfa) s c of
              Some d \<Rightarrow> Some d
            | None \<Rightarrow>
                if s \<in> mk_state ` final_ids pdfa \<and> s \<in> mk_state ` state_ids pdfa
                   \<and> c \<in> alphabet pdfa
                then Some s else None)"
proof -
  show ok: "codes_ok pdfa"
    using assms build_ValueError by fastforce
  show fk: "finals_known pdfa"
    using assms ok build_KeyError by fastforce
  from build_loops_ok [OF ok fk]
  obtain tr2 where b: "parsed_dfa_to_automaton pdfa =
            (case pick_start (mk_state ` no_incoming pdfa) of
               Inl e \<Rightarrow> Inl e
             | Inr q0 \<Rightarrow>
                 Inr \<lparr>states = mk_state ` state_ids pdfa, input_symbols = alphabet pdfa,
                      transitions = tr2, initial_state = q0,
                      final_states = mk_state ` final_ids pdfa\<rparr>)"
    and d: "dom tr2 = mk_state ` state_ids pdfa"
    and s: "\<And>s c. next_state tr2 s c =
                (case last_assign (alphabet pdfa) (ParsedDFA.transitions pdfa) s c of
                   Some d \<Rightarrow> Some d
                 | None \<Rightarrow>
                     if s \<in> mk_state ` final_ids pdfa \<and> s \<in> mk_state ` state_ids pdfa
                        \<and> c \<in> alphabet pdfa
                     then Some s else None)"
    by blast
  from assms b obtain q0 where q0: "pick_start (mk_state ` no_incoming pdfa) = Inr q0"
    and A: "A = \<lparr>states = mk_state ` state_ids pdfa, input_symbols = alphabet pdfa,
                 transitions = tr2, initial_state = q0,
                 final_states = mk_state ` final_ids pdfa\<rparr>"
    by (auto split: sum.splits)
  show "states A = mk_state ` state_ids pdfa" by (simp add: A)
  show "input_symbols A = alphabet pdfa" by (simp add: A)
  show "final_states A = mk_state ` final_ids pdfa" by (simp add: A)
  show "mk_state ` no_incoming pdfa = {initial_state A}"
    using q0 by (simp add: A pick_start_Inr)
  show "dom (DFA.transitions A) = mk_state ` state_ids pdfa" by (simp add: A d)
  show "\<And>s c. next_state (DFA.transitions A) s c =
           (case last_assign (alphabet pdfa) (ParsedDFA.transitions pdfa) s c of
              Some d \<Rightarrow> Some d
            | None \<Rightarrow>
                if s \<in> mk_state ` final_ids pdfa \<and> s \<in> mk_state ` state_ids pdfa
                   \<and> c \<in> alphabet pdfa
                then Some s else None)"
    by (simp add: A s)
qed

lemma build_succeeds:
  assumes "codes_ok pdfa" and "finals_known pdfa" and "no_incoming pdfa = {i}"
  shows "\<exists>A. parsed_dfa_to_automaton pdfa = Inr A \<and> initial_state A = mk_state i"
proof -
  have "pick_start (mk_state ` no_incoming pdfa) = Inr (mk_state i)"
    using assms(3) by (simp add: pick_start_Inr)
  with build_loops_ok [OF assms(1,2)] show ?thesis by auto
qed



lemma last_assign_dst:
  "last_assign syms ts s c = Some d \<Longrightarrow> d \<in> mk_state ` dst ` set ts"
  by (induction ts) (auto split: option.splits if_splits)





section \<open>The claims about the Automaton Builder\<close>

lemmas state_names = mk_state_def str_def str_nat_small digit_char_def

lemmas graph_defs = state_ids_def alphabet_def no_incoming_def final_ids_def codes_ok_def
  finals_known_def



















section \<open>The claim about the Graph Parser\<close>

text \<open>
  C7: a token of an edge label that begins with the accept-marker prefix \<^verbatim>\<open>yyaccept=\<close>
  contributes no character codes, and every other token with a bracket is decoded. The
  code tests for \<^verbatim>\<open>yyacept=\<close>, with one \<^verbatim>\<open>c\<close>. A token with the real prefix is
  therefore not skipped: without a bracket it falls through and adds nothing, which is
  what the claim says, but with a bracket it reaches the decoder, which raises. And a
  token with the misspelt prefix is skipped, bracket or not.
\<close>

theorem accept_marker_prefix_misspelt:
  "edge_transition 1 2 (Some ''yyaccept=[a]'') = Inl TypeError
   \<and> map_sum id chars (edge_transition 1 2 (Some ''yyacept=[a] [b]'')) = Inr {98}
   \<and> map_sum id chars (edge_transition 1 2 (Some ''yyaccept=0 [a-c]'')) = Inr {97..99}"
proof -
  have "edge_transition 1 2 (Some ''yyaccept=[a]'') = Inl TypeError"
    by (simp add: edge_transition_def split_ws_def decoder_defs)
  moreover have "map_sum id chars (edge_transition 1 2 (Some ''yyacept=[a] [b]'')) = Inr {98}"
    by (simp add: edge_transition_def split_ws_def decoder_defs)
  moreover have "map_sum id chars (edge_transition 1 2 (Some ''yyaccept=0 [a-c]'')) = Inr {97..99}"
    by (simp add: edge_transition_def split_ws_def decoder_defs)
  ultimately show ?thesis by blast
qed

section \<open>Properties of the automaton algebra\<close>

subsection \<open>Runs and configurations\<close>

lemma Both_in_configs:
  "Both k l \<in> configs (Difference x y) \<longleftrightarrow> k \<in> configs x \<and> l \<in> configs y"
  "Both k l \<in> configs (Union_of x y) \<longleftrightarrow> k \<in> configs x \<and> l \<in> configs y"
  by force+

lemma configs_product_cases:
  assumes "k \<in> configs (Difference x y) \<or> k \<in> configs (Union_of x y)"
  obtains a b where "k = Both a b" and "a \<in> configs x" and "b \<in> configs y"
  using assms by auto

lemma start_in_configs: "well_formed m \<Longrightarrow> start m \<in> configs m"
  by (induction m) (simp_all add: Both_in_configs del: configs.simps(2,3))

lemma step_in_configs: "well_formed m \<Longrightarrow> k \<in> configs m \<Longrightarrow> step m k c \<in> configs m"
proof (induction m arbitrary: k)
  case (Built A)
  from Built.prems(2) obtain q where k: "k = At q" and q: "q = None \<or> q \<in> Some ` states A"
    by auto
  define r where "r = (case q of
           None \<Rightarrow> None
         | Some s \<Rightarrow> if c \<in> input_symbols A then next_state (DFA.transitions A) s c else None)"
  have "r = None \<or> r \<in> Some ` states A"
  proof (cases r)
    case None
    then show ?thesis by simp
  next
    case (Some d)
    with q obtain s where "s \<in> states A" and "next_state (DFA.transitions A) s c = Some d"
      by (auto simp: r_def split: option.splits if_splits)
    with Built.prems(1) have "d \<in> states A" by auto
    with Some show ?thesis by simp
  qed
  moreover have "step (Built A) k c = At r" by (simp add: k r_def)
  ultimately show ?case by auto
next
  case (Difference x y)
  from Difference.prems(2) obtain a b where "k = Both a b" "a \<in> configs x" "b \<in> configs y"
    by (rule configs_product_cases [OF disjI1])
  with Difference show ?case
    by (simp add: Both_in_configs del: configs.simps(2,3))
next
  case (Union_of x y)
  from Union_of.prems(2) obtain a b where "k = Both a b" "a \<in> configs x" "b \<in> configs y"
    by (rule configs_product_cases [OF disjI2])
  with Union_of show ?case
    by (simp add: Both_in_configs del: configs.simps(2,3))
qed

lemma run_in_configs:
  "well_formed m \<Longrightarrow> k \<in> configs m \<Longrightarrow> foldl (step m) k w \<in> configs m"
  by (induction w arbitrary: k) (auto simp: step_in_configs)

lemma configs_card: "well_formed m \<Longrightarrow> finite (configs m) \<and> card (configs m) \<le> state_count m"
proof (induction m)
  case (Built A)
  then have f: "finite (states A)" by simp
  have "card (At ` insert None (Some ` states A)) = card (insert None (Some ` states A))"
    by (rule card_image) (simp add: inj_on_def)
  also have "\<dots> = Suc (card (Some ` states A))"
    using f by (subst card_insert_disjoint) auto
  also have "card (Some ` states A) = card (states A)"
    by (rule card_image) simp
  finally show ?case using f by simp
next
  case (Difference x y)
  then have fx: "finite (configs x)" and fy: "finite (configs y)"
    and cx: "card (configs x) \<le> state_count x" and cy: "card (configs y) \<le> state_count y"
    by simp_all
  have "card ((\<lambda>(k, l). Both k l) ` (configs x \<times> configs y)) \<le> card (configs x \<times> configs y)"
    using fx fy by (intro card_image_le) simp
  also have "\<dots> = card (configs x) * card (configs y)"
    by (simp add: card_cartesian_product)
  also have "\<dots> \<le> state_count x * state_count y"
    using cx cy by (rule mult_le_mono)
  finally show ?case using fx fy by simp
next
  case (Union_of x y)
  then have fx: "finite (configs x)" and fy: "finite (configs y)"
    and cx: "card (configs x) \<le> state_count x" and cy: "card (configs y) \<le> state_count y"
    by simp_all
  have "card ((\<lambda>(k, l). Both k l) ` (configs x \<times> configs y)) \<le> card (configs x \<times> configs y)"
    using fx fy by (intro card_image_le) simp
  also have "\<dots> = card (configs x) * card (configs y)"
    by (simp add: card_cartesian_product)
  also have "\<dots> \<le> state_count x * state_count y"
    using cx cy by (rule mult_le_mono)
  finally show ?case using fx fy by simp
qed

text \<open>A run longer than the number of configurations repeats one and can be cut.\<close>

lemma cut_run:
  assumes wf: "well_formed m" and long: "state_count m < length v"
  shows "\<exists>u. foldl (step m) (start m) u = foldl (step m) (start m) v
              \<and> u \<noteq> [] \<and> length u < length v \<and> set u \<subseteq> set v"
proof -
  let ?f = "\<lambda>i. foldl (step m) (start m) (take i v)"
  let ?I = "{1..length v}"
  have "?f ` ?I \<subseteq> configs m"
    using run_in_configs [OF wf start_in_configs [OF wf]] by auto
  then have "card (?f ` ?I) \<le> card (configs m)"
    using configs_card [OF wf] by (intro card_mono) auto
  also have "\<dots> \<le> state_count m" using configs_card [OF wf] by simp
  also have "\<dots> < card ?I" using long by simp
  finally have "\<not> inj_on ?f ?I" by (rule pigeonhole)
  then obtain i j where ij: "i \<in> ?I" "j \<in> ?I" "i \<noteq> j" "?f i = ?f j"
    by (auto simp: inj_on_def)
  define a where "a = min i j"
  define b where "b = max i j"
  have ab: "1 \<le> a" "a < b" "b \<le> length v" "?f a = ?f b"
    using ij by (auto simp: a_def b_def min_def max_def)
  let ?u = "take a v @ drop b v"
  have "foldl (step m) (start m) ?u = foldl (step m) (?f a) (drop b v)"
    by simp
  also have "\<dots> = foldl (step m) (?f b) (drop b v)"
    using ab(4) by simp
  also have "\<dots> = foldl (step m) (start m) (take b v @ drop b v)"
    by (simp only: foldl_append)
  finally have "foldl (step m) (start m) ?u = foldl (step m) (start m) v" by simp
  moreover have "?u \<noteq> []" using ab long by auto
  moreover have "length ?u < length v" using ab by auto
  moreover have "set ?u \<subseteq> set v"
    using set_take_subset [of a v] set_drop_subset [of b v] by auto
  ultimately show ?thesis by blast
qed

lemma short_witness:
  assumes wf: "well_formed m" and "accepts m v" and "v \<noteq> []"
  shows "\<exists>u. accepts m u \<and> u \<noteq> [] \<and> length u \<le> state_count m"
  using assms(2,3)
proof (induction "length v" arbitrary: v rule: less_induct)
  case less
  show ?case
  proof (cases "length v \<le> state_count m")
    case True
    with less.prems show ?thesis by blast
  next
    case False
    then have "state_count m < length v" by simp
    from cut_run [OF wf this] obtain u
      where u: "foldl (step m) (start m) u = foldl (step m) (start m) v"
        "u \<noteq> []" "length u < length v"
      by blast
    from u(1) less.prems(1) have "accepts m u" by (simp add: accepts_def)
    with less.hyps [OF u(3)] u(2) show ?thesis by blast
  qed
qed

subsection \<open>Products run their components side by side\<close>

lemma run_Difference:
  "foldl (step (Difference x y)) (Both k l) w = Both (foldl (step x) k w) (foldl (step y) l w)"
  by (induction w arbitrary: k l) auto

lemma run_Union:
  "foldl (step (Union_of x y)) (Both k l) w = Both (foldl (step x) k w) (foldl (step y) l w)"
  by (induction w arbitrary: k l) auto

lemma accepts_Difference: "accepts (Difference x y) w \<longleftrightarrow> accepts x w \<and> \<not> accepts y w"
  by (simp add: accepts_def run_Difference)

lemma accepts_Union: "accepts (Union_of x y) w \<longleftrightarrow> accepts x w \<or> accepts y w"
  by (simp add: accepts_def run_Union)

lemma run_dead: "foldl (step (Built A)) (At None) w = At None"
  by (induction w) auto

lemma run_Built_symbols:
  "final (Built A) (foldl (step (Built A)) (At q) w) \<Longrightarrow> set w \<subseteq> input_symbols A"
proof (induction w arbitrary: q)
  case Nil
  then show ?case by simp
next
  case (Cons c w)
  show ?case
  proof (cases "c \<in> input_symbols A \<and> q \<noteq> None")
    case True
    with Cons show ?thesis by (auto split: option.splits)
  next
    case False
    then have "step (Built A) (At q) c = At None" by (auto split: option.splits)
    with Cons.prems show ?thesis by (simp add: run_dead)
  qed
qed

lemma accepts_symbols: "accepts m w \<Longrightarrow> set w \<subseteq> symbols m"
proof (induction m)
  case (Built A)
  then show ?case using run_Built_symbols [of A] by (auto simp: accepts_def)
next
  case (Difference x y)
  then show ?case by (auto simp: accepts_Difference)
next
  case (Union_of x y)
  then show ?case by (auto simp: accepts_Union)
qed

subsection \<open>The candidates come in the order of the search\<close>

lemma set_words_of_length:
  "set (words_of_length syms n) = {w. length w = n \<and> set w \<subseteq> set syms}"
proof (induction n)
  case 0
  then show ?case by auto
next
  case (Suc n)
  show ?case
  proof (rule set_eqI)
    fix w
    show "w \<in> set (words_of_length syms (Suc n)) \<longleftrightarrow> w \<in> {w. length w = Suc n \<and> set w \<subseteq> set syms}"
      by (cases w) (auto simp: Suc.IH)
  qed
qed

lemma set_candidates:
  "set (candidates syms n) = {w. 1 \<le> length w \<and> length w \<le> n \<and> set w \<subseteq> set syms}"
  by (auto simp: candidates_def set_words_of_length)

lemma sorted_blocks:
  assumes "sorted_wrt (<) syms" and "sorted_wrt lex_less W"
  shows "sorted_wrt lex_less (concat (map (\<lambda>c. map ((#) c) W) syms))"
  using assms(1)
proof (induction syms)
  case Nil
  then show ?case by simp
next
  case (Cons c cs)
  have "sorted_wrt lex_less (map ((#) c) W)"
    using assms(2) by (simp add: sorted_wrt_map)
  with Cons show ?case by (auto simp: sorted_wrt_append)
qed

lemma sorted_words_of_length:
  "sorted_wrt (<) syms \<Longrightarrow> sorted_wrt lex_less (words_of_length syms n)"
  by (induction n) (simp_all add: sorted_blocks)

lemma sorted_candidates:
  assumes "sorted_wrt (<) syms"
  shows "sorted_wrt shortlex_less (candidates syms n)"
proof (induction n)
  case 0
  then show ?case by (simp add: candidates_def)
next
  case (Suc n)
  have split: "candidates syms (Suc n) = candidates syms n @ words_of_length syms (Suc n)"
    by (simp add: candidates_def)
  have "sorted_wrt shortlex_less (words_of_length syms (Suc n))"
    by (rule sorted_wrt_mono_rel [OF _ sorted_words_of_length [OF assms]])
       (auto simp: set_words_of_length shortlex_less_def)
  moreover have "\<forall>u \<in> set (candidates syms n). \<forall>v \<in> set (words_of_length syms (Suc n)). shortlex_less u v"
    by (auto simp: set_candidates set_words_of_length shortlex_less_def)
  ultimately show ?case using Suc by (simp add: split sorted_wrt_append del: words_of_length.simps)
qed

lemma find_sorted_min:
  "sorted_wrt R xs \<Longrightarrow> find P xs = Some w \<Longrightarrow> v \<in> set xs \<Longrightarrow> P v \<Longrightarrow> v = w \<or> R w v"
  by (induction xs) (auto split: if_splits)

lemma shortlex_less_Nil: "shortlex_less [] v \<longleftrightarrow> v \<noteq> []"
  by (cases v) (auto simp: shortlex_less_def)

subsection \<open>The search finds the smallest non-empty accepted word\<close>

lemma successor_in_Nil:
  "successor_in m [] = find (accepts m) (filter (\<lambda>v. True) (candidates (sorted_list_of_set (symbols m)) (state_count m)))"
proof -
  have "\<And>v. v \<in> set (candidates (sorted_list_of_set (symbols m)) (state_count m)) \<Longrightarrow> v \<noteq> []"
    by (auto simp: set_candidates)
  then have "find (\<lambda>v. shortlex_less [] v \<and> accepts m v) (candidates (sorted_list_of_set (symbols m)) (state_count m))
           = find (accepts m) (candidates (sorted_list_of_set (symbols m)) (state_count m))"
    by (intro find_cong) (auto simp: shortlex_less_Nil)
  then show ?thesis by (simp add: successor_in_def)
qed

lemma successor_in_least:
  assumes fin: "finite (symbols m)" and w: "successor_in m [] = Some w"
  shows "accepts m w" and "w \<noteq> []"
    and "\<And>v. accepts m v \<Longrightarrow> v \<noteq> [] \<Longrightarrow> v = w \<or> shortlex_less w v"
proof -
  let ?syms = "sorted_list_of_set (symbols m)"
  let ?cs = "candidates ?syms (state_count m)"
  from w have f: "find (accepts m) ?cs = Some w" by (simp add: successor_in_Nil)
  then have win: "w \<in> set ?cs" and "accepts m w"
    by (auto simp: find_Some_iff)
  then show "accepts m w" and "w \<noteq> []" by (auto simp: set_candidates)
  have srt: "sorted_wrt shortlex_less ?cs"
    by (rule sorted_candidates) (simp add: strict_sorted_list_of_set)
  fix v
  assume v: "accepts m v" "v \<noteq> []"
  show "v = w \<or> shortlex_less w v"
  proof (cases "length v \<le> state_count m")
    case True
    with v fin accepts_symbols [OF v(1)] have "v \<in> set ?cs"
      by (cases v) (auto simp: set_candidates)
    from find_sorted_min [OF srt f this v(1)] show ?thesis .
  next
    case False
    with win have "length w < length v" by (auto simp: set_candidates)
    then show ?thesis by (simp add: shortlex_less_def)
  qed
qed

lemma successor_in_exists:
  assumes wf: "well_formed m" and fin: "finite (symbols m)" and v: "accepts m v" "v \<noteq> []"
  shows "\<exists>w. successor_in m [] = Some w"
proof -
  from short_witness [OF wf v] obtain u
    where u: "accepts m u" "u \<noteq> []" "length u \<le> state_count m" by blast
  with fin accepts_symbols [OF u(1)]
  have "u \<in> set (candidates (sorted_list_of_set (symbols m)) (state_count m))"
    by (cases u) (auto simp: set_candidates)
  with u(1) have "find (accepts m) (candidates (sorted_list_of_set (symbols m)) (state_count m)) \<noteq> None"
    by (auto simp: find_None_iff)
  then show ?thesis by (auto simp: successor_in_Nil)
qed

lemma is_empty_iff:
  assumes "well_formed m" and "finite (symbols m)"
  shows "is_empty m \<longleftrightarrow> (\<forall>w. \<not> accepts m w)"
proof
  assume e: "is_empty m"
  show "\<forall>w. \<not> accepts m w"
  proof
    fix w
    show "\<not> accepts m w"
    proof (cases "w = []")
      case True
      with e show ?thesis by (simp add: is_empty_def)
    next
      case False
      show ?thesis
      proof
        assume "accepts m w"
        from successor_in_exists [OF assms this False] e show False
          by (auto simp: is_empty_def)
      qed
    qed
  qed
next
  assume n: "\<forall>w. \<not> accepts m w"
  have "successor_in m [] = None"
  proof (cases "successor_in m []")
    case None
    then show ?thesis .
  next
    case (Some w)
    from successor_in_least(1) [OF assms(2) Some] n show ?thesis by blast
  qed
  with n show "is_empty m" by (simp add: is_empty_def)
qed

subsection \<open>Built automata as machines\<close>

lemma finite_alphabet: "codes_ok pdfa \<Longrightarrow> finite (alphabet pdfa)"
proof -
  assume "codes_ok pdfa"
  then have "alphabet pdfa \<subseteq> {0..<0x110000}"
    by (auto simp: codes_ok_def alphabet_def)
  then show ?thesis by (rule finite_subset) simp
qed

lemma built_well_formed:
  assumes "parsed_dfa_to_automaton pdfa = Inr A"
  shows "well_formed (Built A)" and "finite (symbols (Built A))"
proof -
  note b = build_Inr [OF assms]
  have fin: "finite (states A)"
    by (simp add: b(3) finite_state_ids)
  have "initial_state A \<in> mk_state ` no_incoming pdfa"
    using b(6) by simp
  then have init: "initial_state A \<in> states A"
    by (auto simp: b(3) no_incoming_def)
  have "d \<in> states A" if "s \<in> states A" and "next_state (DFA.transitions A) s c = Some d" for s c d
  proof (cases "last_assign (alphabet pdfa) (ParsedDFA.transitions pdfa) s c")
    case None
    with that show ?thesis by (auto simp: b(8) split: if_splits)
  next
    case (Some d')
    with that have "d = d'" by (simp add: b(8))
    with Some have "d \<in> mk_state ` dst ` set (ParsedDFA.transitions pdfa)"
      using last_assign_dst by blast
    then show ?thesis by (auto simp: b(3) state_ids_def)
  qed
  with fin init show "well_formed (Built A)" by auto
  show "finite (symbols (Built A))"
    by (simp add: b(4) finite_alphabet [OF b(1)])
qed


subsection \<open>What the comparison prints about a difference\<close>


lemma compare_built:
  assumes "parsed_dfa_to_automaton g1 = Inr A" and "parsed_dfa_to_automaton g2 = Inr Z"
  shows "compare_graphs spec_library g1 g2 = compare_automata spec_library (Built A) (Built Z)"
  using assms by (simp add: compare_graphs_def spec_library_def)




subsection \<open>The languages of the example graphs\<close>

lemma same_from_shared_configs:
  assumes "\<forall>k \<in> K. \<forall>c. step m k c = step n k c \<and> step m k c \<in> K"
    and "\<forall>k \<in> K. final m k = final n k" and "k \<in> K"
  shows "final m (foldl (step m) k w) = final n (foldl (step n) k w)"
  using assms(3)
proof (induction w arbitrary: k)
  case Nil
  with assms(2) show ?case by simp
next
  case (Cons c w)
  from assms(1) Cons.prems have eq: "step m k c = step n k c" and "step m k c \<in> K"
    by blast+
  from Cons.IH [OF this(2)] show ?case by (simp add: eq [symmetric])
qed

lemma a_graphs_built:
  "\<exists>A. parsed_dfa_to_automaton a_plus_graph = Inr A"
  "\<exists>Z. parsed_dfa_to_automaton a_star_graph = Inr Z"
proof -
  have "\<exists>A. parsed_dfa_to_automaton a_plus_graph = Inr A \<and> initial_state A = mk_state 0"
    by (rule build_succeeds) (auto simp: graph_defs a_plus_graph_def)
  then show "\<exists>A. parsed_dfa_to_automaton a_plus_graph = Inr A" by blast
  have "\<exists>Z. parsed_dfa_to_automaton a_star_graph = Inr Z \<and> initial_state Z = mk_state 0"
    by (rule build_succeeds) (auto simp: graph_defs a_star_graph_def)
  then show "\<exists>Z. parsed_dfa_to_automaton a_star_graph = Inr Z" by blast
qed

lemma a_graphs_difference:
  assumes A: "parsed_dfa_to_automaton a_plus_graph = Inr A"
    and Z: "parsed_dfa_to_automaton a_star_graph = Inr Z"
  shows "difference_language Z A = {[]}" and "difference_language A Z = {}"
    and "accepts (Built Z) []" and "\<not> accepts (Built A) []"
proof -
  note a = build_Inr [OF A] and z = build_Inr [OF Z]
  have ia: "initial_state A = ''0''"
    using a(6) by (auto simp: graph_defs a_plus_graph_def state_names)
  have iz: "initial_state Z = ''0''"
    using z(6) by (auto simp: graph_defs a_star_graph_def state_names)
  have fa: "final_states A = {''1''}"
    by (simp add: a(5) final_ids_def a_plus_graph_def state_names)
  have fz: "final_states Z = {''0'', ''1''}"
    by (auto simp: z(5) final_ids_def a_star_graph_def state_names)
  have sa: "input_symbols A = {97}"
    by (simp add: a(4) alphabet_def a_plus_graph_def)
  have sz: "input_symbols Z = {97}"
    by (simp add: z(4) alphabet_def a_star_graph_def)
  have na: "next_state (DFA.transitions A) ''0'' 97 = Some ''1''"
    "next_state (DFA.transitions A) ''1'' 97 = Some ''1''"
    by (simp_all add: a(8) a_plus_graph_def covers_def alphabet_def state_names)
  have nz: "next_state (DFA.transitions Z) ''0'' 97 = Some ''1''"
    "next_state (DFA.transitions Z) ''1'' 97 = Some ''1''"
    by (simp_all add: z(8) a_star_graph_def covers_def alphabet_def state_names)
  show e1: "accepts (Built Z) []" by (simp add: accepts_def iz fz)
  show e2: "\<not> accepts (Built A) []" by (simp add: accepts_def ia fa)
  let ?K = "{At (Some ''1''), At None}"
  have first: "step (Built Z) (At (Some ''0'')) c = step (Built A) (At (Some ''0'')) c
               \<and> step (Built Z) (At (Some ''0'')) c \<in> ?K" for c
    by (simp add: sa sz na nz)
  have shared: "\<forall>k \<in> ?K. \<forall>c. step (Built Z) k c = step (Built A) k c \<and> step (Built Z) k c \<in> ?K"
    by (simp add: sa sz na nz)
  have fin: "\<forall>k \<in> ?K. final (Built Z) k = final (Built A) k"
    by (simp add: fa fz)
  have same: "accepts (Built Z) w = accepts (Built A) w" if "w \<noteq> []" for w
  proof -
    from that obtain c u where w: "w = c # u" by (cases w) auto
    have "final (Built Z) (foldl (step (Built Z)) (step (Built Z) (At (Some ''0'')) c) u)
          = final (Built A) (foldl (step (Built A)) (step (Built Z) (At (Some ''0'')) c) u)"
      by (rule same_from_shared_configs [OF shared fin]) (use first in blast)
    then show ?thesis using first [of c] by (simp add: accepts_def w ia iz)
  qed
  show "difference_language Z A = {[]}"
  proof (rule set_eqI)
    fix w
    show "w \<in> difference_language Z A \<longleftrightarrow> w \<in> {[]}"
      using same [of w] e1 e2 by (cases "w = []") (auto simp: difference_language_def)
  qed
  show "difference_language A Z = {}"
  proof (rule set_eqI)
    fix w
    show "w \<in> difference_language A Z \<longleftrightarrow> w \<in> {}"
      using same [of w] e1 e2 by (cases "w = []") (auto simp: difference_language_def)
  qed
qed


section \<open>The claim about the witness of the Equivalence Engine\<close>




section \<open>The claim about the cross-check of the Equivalence Engine\<close>

lemma equiv_agree:
  assumes "language_algebra lib ok lang" and "ok a" and "ok z"
  shows "equiv1 lib a z = (lang a = lang z)" and "equiv2 lib a z = (lang a = lang z)"
proof -
  from assms(1) have c: "\<And>x y. ok x \<Longrightarrow> ok y \<Longrightarrow>
        ok (difference lib x y) \<and> ok (union_of lib x y)
        \<and> lang (difference lib x y) = lang x - lang y
        \<and> lang (union_of lib x y) = lang x \<union> lang y
        \<and> isempty lib x = (lang x = {})
        \<and> equal_to lib x y = (lang x = lang y)"
    by (simp add: language_algebra_def)
  note az = c [OF assms(2,3)] and za = c [OF assms(3,2)]
  have u1: "equal_to lib (union_of lib a z) a = (lang a \<union> lang z = lang a)"
    using c [of "union_of lib a z" a] az assms(2) by simp
  have u2: "equal_to lib (union_of lib z a) z = (lang z \<union> lang a = lang z)"
    using c [of "union_of lib z a" z] za assms(3) by simp
  have d1: "isempty lib (difference lib a z) = (lang a - lang z = {})"
    using c [of "difference lib a z" a] az assms(2) by simp
  have d2: "isempty lib (difference lib z a) = (lang z - lang a = {})"
    using c [of "difference lib z a" z] za assms(3) by simp
  show "equiv1 lib a z = (lang a = lang z)"
    unfolding equiv1_def u1 u2 by blast
  show "equiv2 lib a z = (lang a = lang z)"
    unfolding equiv2_def d1 d2 by blast
qed

lemma spec_library_meets_contract: "language_algebra spec_library machine_ok accepted"
proof -
  have "machine_ok (Difference x y) \<and> machine_ok (Union_of x y)
        \<and> accepted (Difference x y) = accepted x - accepted y
        \<and> accepted (Union_of x y) = accepted x \<union> accepted y
        \<and> is_empty x = (accepted x = {})
        \<and> ((is_empty (Difference x y) \<and> is_empty (Difference y x)) = (accepted x = accepted y))"
    if x: "machine_ok x" and y: "machine_ok y" for x y
  proof -
    have okd: "machine_ok (Difference x y)" "machine_ok (Difference y x)" "machine_ok (Union_of x y)"
      using x y by (simp_all add: machine_ok_def)
    have e: "is_empty m = (accepted m = {})" if "machine_ok m" for m
      using that is_empty_iff [of m] by (auto simp: machine_ok_def accepted_def)
    have ld: "accepted (Difference u v) = accepted u - accepted v" for u v
      by (auto simp: accepted_def accepts_Difference)
    have lu: "accepted (Union_of u v) = accepted u \<union> accepted v" for u v
      by (auto simp: accepted_def accepts_Union)
    have "(is_empty (Difference x y) \<and> is_empty (Difference y x)) = (accepted x = accepted y)"
      unfolding e [OF okd(1)] e [OF okd(2)] ld by blast
    with okd e [OF x] ld lu show ?thesis by simp
  qed
  then have "\<forall>x y. machine_ok x \<and> machine_ok y \<longrightarrow>
        machine_ok (Difference x y) \<and> machine_ok (Union_of x y)
        \<and> accepted (Difference x y) = accepted x - accepted y
        \<and> accepted (Union_of x y) = accepted x \<union> accepted y
        \<and> is_empty x = (accepted x = {})
        \<and> ((is_empty (Difference x y) \<and> is_empty (Difference y x)) = (accepted x = accepted y))"
    by blast
  moreover have "difference spec_library = Difference" and "union_of spec_library = Union_of"
    and "isempty spec_library = is_empty"
    and "equal_to spec_library = (\<lambda>x y. is_empty (Difference x y) \<and> is_empty (Difference y x))"
    by (simp_all add: spec_library_def)
  ultimately show ?thesis
    by (simp only: language_algebra_def)
qed

lemma built_machine_ok:
  "parsed_dfa_to_automaton pdfa = Inr A \<Longrightarrow> machine_ok (Built A)"
  using built_well_formed [of pdfa A] by (simp add: machine_ok_def)

text \<open>
  C5: the verdict by emptiness of the two differences agrees with the verdict by the
  unions, and a disagreement stops the comparison. For every library whose operations
  mean what their names say on languages, and every pair of its automata, both
  computations give the truth of ``the two languages are equal'', so the comparison
  returns that verdict; the automaton algebra of the specification is such a library
  on built automata. And for every library whatsoever, the comparison returns the
  common value when the two computations agree and fails its assertion, returning no
  verdict and printing none, when they disagree.
\<close>

theorem cross_check_agrees_or_fails:
  "(language_algebra lib ok lang \<and> ok a \<and> ok z \<longrightarrow>
      equiv2 lib a z = equiv1 lib a z
      \<and> snd (compare_automata lib a z) = Inr (lang a = lang z))
   \<and> (equiv2 lib a z \<noteq> equiv1 lib a z \<longrightarrow>
        snd (compare_automata lib a z) = Inl AssertionError
        \<and> (\<forall>b. Equivalent b \<notin> set (fst (compare_automata lib a z))))
   \<and> (equiv2 lib a z = equiv1 lib a z \<longrightarrow>
        snd (compare_automata lib a z) = Inr (equiv2 lib a z))"
proof (intro conjI impI)
  assume c: "language_algebra lib ok lang \<and> ok a \<and> ok z"
  then have e: "equiv1 lib a z = (lang a = lang z)" "equiv2 lib a z = (lang a = lang z)"
    using equiv_agree [of lib ok lang a z] by blast+
  show "equiv2 lib a z = equiv1 lib a z"
    by (simp add: e)
  show "snd (compare_automata lib a z) = Inr (lang a = lang z)"
    by (simp add: compare_automata_def Let_def e)
next
  assume "equiv2 lib a z \<noteq> equiv1 lib a z"
  then show "snd (compare_automata lib a z) = Inl AssertionError"
    by (auto simp: compare_automata_def Let_def)
next
  assume "equiv2 lib a z \<noteq> equiv1 lib a z"
  then show "\<forall>b. Equivalent b \<notin> set (fst (compare_automata lib a z))"
    by (auto simp: compare_automata_def Let_def)
next
  assume "equiv2 lib a z = equiv1 lib a z"
  then show "snd (compare_automata lib a z) = Inr (equiv2 lib a z)"
    by (simp add: compare_automata_def Let_def)
qed

theorem cross_check_agrees_or_fails_witness:
  "snd (compare_graphs spec_library a_plus_graph a_star_graph) = Inr False
   \<and> snd (compare_graphs spec_library a_plus_graph a_plus_graph) = Inr True
   \<and> snd (compare_graphs broken_library a_plus_graph a_star_graph) = Inl AssertionError"
proof -
  from a_graphs_built obtain A Z
    where A: "parsed_dfa_to_automaton a_plus_graph = Inr A"
      and Z: "parsed_dfa_to_automaton a_star_graph = Inr Z"
    by blast
  note ok = built_machine_ok [OF A] built_machine_ok [OF Z]
  note d = a_graphs_difference [OF A Z]
  have ne: "accepted (Built A) \<noteq> accepted (Built Z)"
    using d(3,4) by (auto simp: accepted_def)
  have "snd (compare_automata spec_library (Built A) (Built Z)) = Inr False"
    using cross_check_agrees_or_fails [of spec_library machine_ok accepted "Built A" "Built Z"]
      spec_library_meets_contract ok ne
    by simp
  then have one: "snd (compare_graphs spec_library a_plus_graph a_star_graph) = Inr False"
    by (simp add: compare_built [OF A Z])
  have "snd (compare_automata spec_library (Built A) (Built A)) = Inr True"
    using cross_check_agrees_or_fails [of spec_library machine_ok accepted "Built A" "Built A"]
      spec_library_meets_contract ok
    by simp
  then have two: "snd (compare_graphs spec_library a_plus_graph a_plus_graph) = Inr True"
    by (simp add: compare_built [OF A A])
  have e2: "equiv2 broken_library (Built A) (Built Z)"
    by (simp add: equiv2_def broken_library_def)
  have "\<not> is_empty (Difference (Union_of (Built A) (Built Z)) (Built A))"
  proof -
    have "machine_ok (Difference (Union_of (Built A) (Built Z)) (Built A))"
      using ok by (simp add: machine_ok_def)
    moreover have "accepts (Difference (Union_of (Built A) (Built Z)) (Built A)) []"
      using d(3,4) by (simp add: accepts_Difference accepts_Union)
    ultimately show ?thesis
      using is_empty_iff [of "Difference (Union_of (Built A) (Built Z)) (Built A)"]
      by (auto simp: machine_ok_def)
  qed
  then have e1: "\<not> equiv1 broken_library (Built A) (Built Z)"
    by (simp add: equiv1_def broken_library_def spec_library_def)
  from e1 e2 have "equiv2 broken_library (Built A) (Built Z) \<noteq> equiv1 broken_library (Built A) (Built Z)"
    by blast
  then have "snd (compare_automata broken_library (Built A) (Built Z)) = Inl AssertionError"
    using cross_check_agrees_or_fails [of broken_library _ _ "Built A" "Built Z"] by blast
  then have three: "snd (compare_graphs broken_library a_plus_graph a_star_graph) = Inl AssertionError"
    using A Z by (simp add: compare_graphs_def broken_library_def spec_library_def)
  from one two three show ?thesis by blast
qed

end
